theory Spec2Isabelle
  imports Main
begin

section \<open>Rendering helpers: escapeHtml and markdownToHtml\<close>

text \<open>
  \<^verbatim>\<open>escapeHtml\<close> looks every character of the character class \<^verbatim>\<open>[&<>"']\<close> up in a
  five-entry object and replaces it, globally. The object is the association list
  \<open>entity_map\<close>; the double quote is \<open>CHR 0x22\<close> and the apostrophe \<open>CHR 0x27\<close>.
\<close>

definition entity_map :: "(char \<times> string) list" where
  "entity_map =
     [(CHR ''&'', ''&amp;''),
      (CHR ''<'', ''&lt;''),
      (CHR ''>'', ''&gt;''),
      (CHR 0x22, ''&quot;''),
      (CHR 0x27, ''&#039;'')]"

definition in_escape_class :: "char \<Rightarrow> bool" where
  "in_escape_class m = (m \<in> {CHR ''&'', CHR ''<'', CHR ''>'', CHR 0x22, CHR 0x27})"

text \<open>The callback \<^verbatim>\<open>m => map[m]\<close>; a key that is not in the object reads as
  \<^verbatim>\<open>undefined\<close>, which \<^verbatim>\<open>replace\<close> prints as the text "undefined".\<close>

definition escape_match :: "char \<Rightarrow> string" where
  "escape_match m = (case map_of entity_map m of Some e \<Rightarrow> e | None \<Rightarrow> ''undefined'')"

text \<open>\<^verbatim>\<open>text.replace(/[&<>"']/g, m => map[m])\<close>: every character of the class is
  replaced, every other character is kept.\<close>

definition replace_escape_class :: "string \<Rightarrow> string" where
  "replace_escape_class text = concat (map (\<lambda>m. if in_escape_class m then escape_match m else [m]) text)"

text \<open>The later version of the script guards against \<^verbatim>\<open>undefined\<close> and \<^verbatim>\<open>null\<close>
  (\<open>None\<close>) first; the earlier version has no guard and is \<open>replace_escape_class\<close> alone.\<close>

definition escapeHtml :: "string option \<Rightarrow> string" where
  "escapeHtml text = (case text of None \<Rightarrow> '''' | Some t \<Rightarrow> replace_escape_class t)"

definition html_delimiters :: "char set" where
  "html_delimiters = {CHR ''<'', CHR ''>'', CHR 0x22, CHR 0x27}"

lemma escape_match_no_delimiter:
  "in_escape_class m \<Longrightarrow> set (escape_match m) \<inter> html_delimiters = {}"
  by (auto simp: in_escape_class_def escape_match_def entity_map_def html_delimiters_def)

lemma replace_escape_class_no_delimiter:
  "set (replace_escape_class s) \<inter> html_delimiters = {}"
proof (induction s)
  case Nil
  show ?case by (simp add: replace_escape_class_def)
next
  case (Cons m s)
  have tail: "replace_escape_class (m # s) =
      (if in_escape_class m then escape_match m else [m]) @ replace_escape_class s"
    by (simp add: replace_escape_class_def)
  show ?case
  proof (cases "in_escape_class m")
    case True
    with Cons escape_match_no_delimiter [OF True] tail show ?thesis by auto
  next
    case False
    then have "m \<notin> html_delimiters"
      by (auto simp: in_escape_class_def html_delimiters_def)
    with Cons False tail show ?thesis by auto
  qed
qed


lemma replace_escape_class_append:
  "replace_escape_class (a @ b) = replace_escape_class a @ replace_escape_class b"
  by (simp add: replace_escape_class_def)

subsection \<open>markdownToHtml\<close>

text \<open>
  \<^verbatim>\<open>markdownToHtml\<close> escapes its argument and then rewrites the escaped text with fifteen
  \<^verbatim>\<open>html.replace(regex, template)\<close> calls. Every character of the string under
  construction is annotated with where it comes from: \<open>Content\<close> for a character of the
  escaped argument, \<open>Markup\<close> for a character written by a replacement template. The
  JavaScript string is the projection \<open>map snd\<close>.
\<close>

datatype origin = Content | Markup

type_synonym html = "(origin \<times> char) list"

definition content_of :: "string \<Rightarrow> html" where
  "content_of s = map (Pair Content) s"

definition markup_of :: "string \<Rightarrow> html" where
  "markup_of s = map (Pair Markup) s"

text \<open>
  The regular expressions, in the order of the source, all with flags \<^verbatim>\<open>gim\<close>:
  headings (three, two, one hash sign and a space at the start of a line), bold (two
  asterisks around a lazy group), italic (one asterisk), fenced code (three backquotes),
  inline code, numbered item (digits, a dot and a space at the start of a line), a
  closing item tag, newline and opening item tag, a run from an opening to a closing item
  tag on one line, items introduced by a hyphen and a space, by U+2022 and a space, by
  U+30FB, a rule of three or more hyphens on a line of its own, and the newline.
\<close>

datatype pattern =
    Heading5 | Heading4 | Heading3
  | Bold | Italic
  | CodeBlock | InlineCode
  | NumberedItem | AdjacentItems | ItemRun
  | HyphenItem | BulletItem | MiddleDotItem
  | Rule | Newline

text \<open>
  A replacement template is literal text and references \<^verbatim>\<open>$1\<close> to the first group.
  A match is reported by the regular-expression engine as the span of the whole match and
  the span of its first group, as offsets into the subject: \<open>(start, stop, g_start, g_stop)\<close>.
\<close>

datatype piece = Lit string | Group1

type_synonym match = "nat \<times> nat \<times> nat \<times> nat"

text \<open>The engine itself belongs to the JavaScript runtime: it is the parameter \<open>rx\<close>,
  which lists the matches of a pattern in a subject from left to right.\<close>

type_synonym engine = "pattern \<Rightarrow> string \<Rightarrow> match list"

definition substring :: "'a list \<Rightarrow> nat \<Rightarrow> nat \<Rightarrow> 'a list" where
  "substring s a b = take (b - a) (drop a s)"

fun expand :: "piece list \<Rightarrow> match \<Rightarrow> html \<Rightarrow> html" where
  "expand [] m s = []"
| "expand (Lit l # ps) m s = markup_of l @ expand ps m s"
| "expand (Group1 # ps) (a, b, g, h) s = substring s g h @ expand ps (a, b, g, h) s"

text \<open>\<^verbatim>\<open>String.prototype.replace\<close> with a global pattern: the text between two matches
  is copied, each match is replaced by the expanded template.\<close>

fun replace_matches :: "nat \<Rightarrow> match list \<Rightarrow> piece list \<Rightarrow> html \<Rightarrow> html" where
  "replace_matches pos [] t s = drop pos s"
| "replace_matches pos ((a, b, g, h) # ms) t s =
     substring s pos a @ expand t (a, b, g, h) s @ replace_matches b ms t s"

definition js_replace :: "engine \<Rightarrow> pattern \<Rightarrow> piece list \<Rightarrow> html \<Rightarrow> html" where
  "js_replace rx p t s = replace_matches 0 (rx p (map snd s)) t s"

definition tag :: "string \<Rightarrow> piece list" where
  "tag name = [Lit (''<'' @ name @ ''>''), Group1, Lit (''</'' @ name @ ''>'')]"

definition substitutions :: "(pattern \<times> piece list) list" where
  "substitutions =
     [(Heading5, tag ''h5''),
      (Heading4, tag ''h4''),
      (Heading3, tag ''h3''),
      (Bold, tag ''strong''),
      (Italic, tag ''em''),
      (CodeBlock, [Lit ''<pre><code>'', Group1, Lit ''</code></pre>'']),
      (InlineCode, tag ''code''),
      (NumberedItem, tag ''li''),
      (AdjacentItems, [Lit ''</li><li>'']),
      (ItemRun, tag ''ol''),
      (HyphenItem, tag ''li''),
      (BulletItem, tag ''li''),
      (MiddleDotItem, tag ''li''),
      (Rule, [Lit ''<hr>'']),
      (Newline, [Lit ''<br>''])]"

definition apply_substitutions :: "engine \<Rightarrow> html \<Rightarrow> html" where
  "apply_substitutions rx s = fold (\<lambda>(p, t) h. js_replace rx p t h) substitutions s"

text \<open>\<^verbatim>\<open>if (!markdown) return ''\<close>: a missing value (\<open>None\<close>) and the empty string
  are falsy.\<close>

definition markdownToHtml :: "engine \<Rightarrow> string option \<Rightarrow> html" where
  "markdownToHtml rx markdown =
     (case markdown of
        None \<Rightarrow> []
      | Some m \<Rightarrow> if m = [] then [] else apply_substitutions rx (content_of (escapeHtml (Some m))))"

text \<open>An engine for examples: it finds the newlines and nothing else.\<close>

fun newline_matches :: "nat \<Rightarrow> string \<Rightarrow> match list" where
  "newline_matches i [] = []"
| "newline_matches i (c # cs) =
     (if c = CHR 0x0A then [(i, Suc i, 0, 0)] else []) @ newline_matches (Suc i) cs"

definition newline_engine :: engine where
  "newline_engine p s = (if p = Newline then newline_matches 0 s else [])"

definition unescaped_content :: "html \<Rightarrow> html" where
  "unescaped_content h = filter (\<lambda>(orig, c). orig = Content \<and> c \<in> html_delimiters) h"

lemma unescaped_content_Nil [simp]: "unescaped_content [] = []"
  by (simp add: unescaped_content_def)

lemma unescaped_content_append [simp]:
  "unescaped_content (a @ b) = unescaped_content a @ unescaped_content b"
  by (simp add: unescaped_content_def)

lemma unescaped_content_markup [simp]: "unescaped_content (markup_of l) = []"
  by (simp add: unescaped_content_def markup_of_def)

lemma unescaped_content_subset:
  "set a \<subseteq> set s \<Longrightarrow> unescaped_content s = [] \<Longrightarrow> unescaped_content a = []"
  unfolding unescaped_content_def filter_empty_conv by blast

lemma unescaped_content_substring:
  "unescaped_content s = [] \<Longrightarrow> unescaped_content (substring s a b) = []"
proof (rule unescaped_content_subset)
  show "set (substring s a b) \<subseteq> set s"
    unfolding substring_def using set_take_subset set_drop_subset by fast
qed

lemma unescaped_content_drop:
  "unescaped_content s = [] \<Longrightarrow> unescaped_content (drop n s) = []"
  using unescaped_content_subset [OF set_drop_subset] .

lemma unescaped_content_expand:
  "unescaped_content s = [] \<Longrightarrow> unescaped_content (expand t m s) = []"
  by (induction t m s rule: expand.induct) (simp_all add: unescaped_content_substring)

lemma unescaped_content_replace_matches:
  "unescaped_content s = [] \<Longrightarrow> unescaped_content (replace_matches pos ms t s) = []"
  by (induction pos ms t s rule: replace_matches.induct)
     (simp_all add: unescaped_content_drop unescaped_content_substring unescaped_content_expand)

lemma unescaped_content_js_replace:
  "unescaped_content s = [] \<Longrightarrow> unescaped_content (js_replace rx p t s) = []"
  by (simp add: js_replace_def unescaped_content_replace_matches)

lemma unescaped_content_fold:
  "unescaped_content s = [] \<Longrightarrow>
   unescaped_content (fold (\<lambda>(p, t) h. js_replace rx p t h) subs s) = []"
  by (induction subs arbitrary: s) (auto simp: unescaped_content_js_replace)

lemma unescaped_content_escaped:
  "unescaped_content (content_of (replace_escape_class m)) = []"
proof -
  have "\<forall>c \<in> set (replace_escape_class m). c \<notin> html_delimiters"
    using replace_escape_class_no_delimiter [of m] by blast
  then show ?thesis
    by (auto simp: unescaped_content_def content_of_def filter_empty_conv)
qed


lemma escape_match_cases:
  "replace_escape_class [c] =
     (if c = CHR ''&'' then ''&amp;''
      else if c = CHR ''<'' then ''&lt;''
      else if c = CHR ''>'' then ''&gt;''
      else if c = CHR 0x22 then ''&quot;''
      else if c = CHR 0x27 then ''&#039;''
      else [c])"
  by (simp add: replace_escape_class_def in_escape_class_def escape_match_def entity_map_def)

lemma replace_escape_class_concat:
  "replace_escape_class s = concat (map (\<lambda>c. replace_escape_class [c]) s)"
  by (induction s) (simp_all add: replace_escape_class_def)

text \<open>
  Claim C10. For every input string, \<open>escapeHtml\<close> replaces each occurrence of the
  ampersand, the angle brackets, the double quote and the apostrophe by its entity,
  character by character, so its result contains none of the four HTML delimiters;
  \<open>markdownToHtml\<close> escapes its whole argument before the first substitution runs, so
  whatever the regular-expression engine matches, no character of the rendered output
  that comes from the argument is an HTML delimiter: the delimiters of the output are all
  written by replacement templates. A missing or empty argument renders as the empty
  string.
\<close>

theorem escapeHtml_markdownToHtml_no_content_delimiter:
  "escapeHtml (Some s) =
     concat (map (\<lambda>c. if c = CHR ''&'' then ''&amp;''
                       else if c = CHR ''<'' then ''&lt;''
                       else if c = CHR ''>'' then ''&gt;''
                       else if c = CHR 0x22 then ''&quot;''
                       else if c = CHR 0x27 then ''&#039;''
                       else [c]) s)
   \<and> set (escapeHtml (Some s)) \<inter> html_delimiters = {}
   \<and> markdownToHtml rx (Some (c # m)) =
       apply_substitutions rx (content_of (escapeHtml (Some (c # m))))
   \<and> unescaped_content (content_of (escapeHtml (Some s))) = []
   \<and> unescaped_content (markdownToHtml rx markdown) = []
   \<and> markdownToHtml rx None = []
   \<and> markdownToHtml rx (Some []) = []"
proof -
  have esc: "escapeHtml (Some s) =
     concat (map (\<lambda>c. if c = CHR ''&'' then ''&amp;''
                       else if c = CHR ''<'' then ''&lt;''
                       else if c = CHR ''>'' then ''&gt;''
                       else if c = CHR 0x22 then ''&quot;''
                       else if c = CHR 0x27 then ''&#039;''
                       else [c]) s)"
    unfolding escapeHtml_def option.case
    by (subst replace_escape_class_concat) (simp only: escape_match_cases)
  have nodelim: "set (escapeHtml (Some s)) \<inter> html_delimiters = {}"
    by (simp add: escapeHtml_def replace_escape_class_no_delimiter)
  have first: "markdownToHtml rx (Some (c # m)) =
       apply_substitutions rx (content_of (escapeHtml (Some (c # m))))"
    by (simp add: markdownToHtml_def)
  have input: "unescaped_content (content_of (escapeHtml (Some s))) = []"
    by (simp add: escapeHtml_def unescaped_content_escaped)
  have out: "unescaped_content (markdownToHtml rx markdown) = []"
  proof (cases markdown)
    case None
    then show ?thesis by (simp add: markdownToHtml_def)
  next
    case (Some m)
    then show ?thesis
      by (simp add: markdownToHtml_def apply_substitutions_def escapeHtml_def
          unescaped_content_fold unescaped_content_escaped)
  qed
  have empty: "markdownToHtml rx None = [] \<and> markdownToHtml rx (Some []) = []"
    by (simp add: markdownToHtml_def)
  from esc nodelim first input out empty show ?thesis by blast
qed


theorem escapeHtml_markdownToHtml_no_content_delimiter_witness:
  "escapeHtml (Some ''<a href='x'>'') = ''&lt;a href=&#039;x&#039;&gt;''
   \<and> map snd (markdownToHtml newline_engine (Some [CHR ''<'', CHR 0x0A, CHR ''&''])) = ''&lt;<br>&amp;''
   \<and> unescaped_content (markdownToHtml newline_engine (Some [CHR ''<'', CHR 0x0A, CHR ''&''])) = []"
proof -
  have escaped: "escapeHtml (Some ''<a href='x'>'') = ''&lt;a href=&#039;x&#039;&gt;''"
    by code_simp
  have rendered:
    "map snd (markdownToHtml newline_engine (Some [CHR ''<'', CHR 0x0A, CHR ''&''])) = ''&lt;<br>&amp;''"
    by code_simp
  have none: "unescaped_content (markdownToHtml newline_engine (Some [CHR ''<'', CHR 0x0A, CHR ''&''])) = []"
    using escapeHtml_markdownToHtml_no_content_delimiter
      [of "''<a href='x'>''" newline_engine "CHR ''<''" "[CHR 0x0A, CHR ''&'']"
          "Some [CHR ''<'', CHR 0x0A, CHR ''&'']"]
    by blast
  from escaped rendered none show ?thesis by blast
qed


section \<open>Transcript, step requests and step responses\<close>

text \<open>
  A transcript is a JavaScript array of \<^verbatim>\<open>{role, content}\<close> objects. The step loops push
  whatever the response holds under \<^verbatim>\<open>message\<close>, so an array entry can also be
  \<^verbatim>\<open>undefined\<close>.
\<close>

datatype message = Undefined | Message (role: string) (content: string)

text \<open>
  \<^verbatim>\<open>parseInt\<close> yields an integer or \<^verbatim>\<open>NaN\<close> (\<open>None\<close>); every comparison with
  \<^verbatim>\<open>NaN\<close> is false and arithmetic on it gives \<^verbatim>\<open>NaN\<close>.
\<close>

type_synonym jsnum = "int option"

definition js_lt :: "jsnum \<Rightarrow> int \<Rightarrow> bool" where
  "js_lt a b = (case a of None \<Rightarrow> False | Some n \<Rightarrow> n < b)"

definition js_gt :: "jsnum \<Rightarrow> int \<Rightarrow> bool" where
  "js_gt a b = (case a of None \<Rightarrow> False | Some n \<Rightarrow> b < n)"

definition js_times :: "jsnum \<Rightarrow> int \<Rightarrow> jsnum" where
  "js_times a b = map_option (\<lambda>n. n * b) a"

text \<open>The body of a \<^verbatim>\<open>POST /generate-next-turn\<close> request. The field
  \<^verbatim>\<open>use_document\<close> is absent (\<open>None\<close>) when \<^verbatim>\<open>generateNextTurn\<close> builds the request.
  The model settings that the latest version of the script copies from the settings
  dialogue into every request (model, temperature, maxOutputTokens) play no part in the
  control flow and are left out.\<close>

record turn_request =
  req_topic :: string
  req_roles :: "string list"
  req_numTurns :: jsnum
  req_discussion :: "message list"
  req_currentTurn :: int
  req_currentRoleIndex :: int
  req_language :: string
  req_use_document :: "bool option"

text \<open>The body of a \<^verbatim>\<open>POST /continue-discussion\<close> request.\<close>

record continue_request =
  creq_discussion_data :: "message list"
  creq_topic :: string
  creq_roles :: "string list"
  creq_num_additional_turns :: jsnum
  creq_language :: string
  creq_use_document :: bool
  creq_current_turn :: int
  creq_current_role_index :: int

text \<open>The JSON object of a step response, as far as the script reads it. An absent
  \<^verbatim>\<open>error\<close> is \<open>None\<close>, an absent \<^verbatim>\<open>message\<close> is \<open>Undefined\<close>.\<close>

record reply =
  r_error :: "string option"
  r_message :: message
  r_is_complete :: bool
  r_next_turn :: int
  r_next_role_index :: int

text \<open>
  What \<^verbatim>\<open>fetch\<close> and the first \<^verbatim>\<open>then\<close> deliver: either the promise chain rejects
  (network failure, a status that is not ok, a body that is not JSON) with an error text,
  or the parsed JSON object arrives.
\<close>

datatype response = Rejected string | Reply reply

text \<open>\<^verbatim>\<open>if (data.error)\<close>: a missing field and the empty string are falsy.\<close>

definition truthy :: "string option \<Rightarrow> bool" where
  "truthy e = (case e of None \<Rightarrow> False | Some t \<Rightarrow> t \<noteq> [])"

text \<open>The messages that \<^verbatim>\<open>showError\<close> displays, by the place that raises them.\<close>

datatype ui_error =
    TopicMissing
  | TooFewRoles
  | TurnsOutOfRange
  | DocumentMissing
  | DocumentCheckFailed
  | AdditionalTurnsOutOfRange
  | InstructionMissing
  | TooManyRoles
  | NothingToImport
  | ServerError "string option"
  | RequestError string
  | ScriptError

text \<open>
  How a run stands: \<open>Pending\<close> while the next request is still to be sent, \<open>Complete\<close>
  when a response has reported \<^verbatim>\<open>is_complete\<close> and the buttons are enabled again,
  \<open>Stopped\<close> when an error has been shown.
\<close>

datatype ending = Pending | Complete | Stopped ui_error

text \<open>
  The state that a step loop threads through its calls, together with a log of what it
  has sent, received and displayed: the requests, the responses, the progress display
  (current and total), the transcript array, and the cursor.
\<close>

record 'r run =
  run_requests :: "'r list"
  run_responses :: "response list"
  run_progress :: "(int \<times> jsnum) list"
  run_transcript :: "message list"
  run_turn :: int
  run_roleIndex :: int
  run_ending :: ending

definition start :: "message list \<Rightarrow> int \<Rightarrow> int \<Rightarrow> 'r run" where
  "start discussion currentTurn currentRoleIndex =
     \<lparr>run_requests = [], run_responses = [], run_progress = [],
      run_transcript = discussion, run_turn = currentTurn, run_roleIndex = currentRoleIndex,
      run_ending = Pending\<rparr>"

definition refused :: "ui_error \<Rightarrow> 'r run" where
  "refused e =
     \<lparr>run_requests = [], run_responses = [], run_progress = [],
      run_transcript = [], run_turn = 0, run_roleIndex = 0,
      run_ending = Stopped e\<rparr>"

text \<open>
  Each of the step functions sends one request and, in the handler of the response,
  calls itself for the next one. \<open>step_loop\<close> is that recursion; it sends at most
  \<open>fuel\<close> requests, and a run that has more to send is returned \<open>Pending\<close>. The
  server is any function from the number of the request and its body to a response.
\<close>

fun step_loop ::
  "nat \<Rightarrow> (('r, 'z) run_scheme \<Rightarrow> ('r, 'z) run_scheme) \<Rightarrow> ('r, 'z) run_scheme \<Rightarrow> ('r, 'z) run_scheme" where
  "step_loop 0 step st = st"
| "step_loop (Suc fuel) step st =
     (let st' = step st in if run_ending st' = Pending then step_loop fuel step st' else st')"

subsection \<open>generateNextTurn and generateNextTurnWithDocument\<close>

definition turn_requestData ::
  "bool option \<Rightarrow> string \<Rightarrow> string list \<Rightarrow> jsnum \<Rightarrow> string \<Rightarrow> message list \<Rightarrow> int \<Rightarrow> int \<Rightarrow> turn_request" where
  "turn_requestData useDocument topic roles numTurns language discussion currentTurn currentRoleIndex =
     \<lparr>req_topic = topic, req_roles = roles, req_numTurns = numTurns,
      req_discussion = discussion, req_currentTurn = currentTurn,
      req_currentRoleIndex = currentRoleIndex, req_language = language,
      req_use_document = useDocument\<rparr>"

text \<open>
  One call of \<^verbatim>\<open>generateNextTurn\<close> up to the point where it calls itself again. The two
  functions of the source differ in the \<^verbatim>\<open>use_document\<close> field of the request only.
  A response without \<^verbatim>\<open>message\<close> is pushed all the same; \<^verbatim>\<open>appendMessage\<close> then
  throws on \<^verbatim>\<open>message.content\<close> and the \<^verbatim>\<open>catch\<close> handler shows the error.
\<close>

definition next_turn_step ::
  "(nat \<Rightarrow> turn_request \<Rightarrow> response) \<Rightarrow> bool option \<Rightarrow> string \<Rightarrow> string list \<Rightarrow> jsnum \<Rightarrow> string
     \<Rightarrow> turn_request run \<Rightarrow> turn_request run" where
  "next_turn_step server useDocument topic roles numTurns language st =
     (let totalRoles = int (length roles);
          totalIterations = js_times numTurns totalRoles;
          currentIteration = run_turn st * totalRoles + run_roleIndex st + 1;
          requestData = turn_requestData useDocument topic roles numTurns language
                          (run_transcript st) (run_turn st) (run_roleIndex st);
          data = server (length (run_requests st)) requestData;
          sent = st\<lparr>run_requests := run_requests st @ [requestData],
                    run_responses := run_responses st @ [data],
                    run_progress := run_progress st @ [(currentIteration, totalIterations)]\<rparr>
      in case data of
           Rejected e \<Rightarrow> sent\<lparr>run_ending := Stopped (RequestError e)\<rparr>
         | Reply d \<Rightarrow>
             if truthy (r_error d) then sent\<lparr>run_ending := Stopped (ServerError (r_error d))\<rparr>
             else
               let pushed = sent\<lparr>run_transcript := run_transcript st @ [r_message d]\<rparr> in
               if r_message d = Undefined then pushed\<lparr>run_ending := Stopped ScriptError\<rparr>
               else if r_is_complete d then pushed\<lparr>run_ending := Complete\<rparr>
               else pushed\<lparr>run_turn := r_next_turn d, run_roleIndex := r_next_role_index d\<rparr>)"

definition generateNextTurn ::
  "nat \<Rightarrow> (nat \<Rightarrow> turn_request \<Rightarrow> response) \<Rightarrow> string \<Rightarrow> string list \<Rightarrow> jsnum \<Rightarrow> message list
     \<Rightarrow> int \<Rightarrow> int \<Rightarrow> string \<Rightarrow> turn_request run" where
  "generateNextTurn fuel server topic roles numTurns discussion currentTurn currentRoleIndex language =
     step_loop fuel (next_turn_step server None topic roles numTurns language)
       (start discussion currentTurn currentRoleIndex)"

definition generateNextTurnWithDocument ::
  "nat \<Rightarrow> (nat \<Rightarrow> turn_request \<Rightarrow> response) \<Rightarrow> string \<Rightarrow> string list \<Rightarrow> jsnum \<Rightarrow> message list
     \<Rightarrow> int \<Rightarrow> int \<Rightarrow> string \<Rightarrow> bool \<Rightarrow> turn_request run" where
  "generateNextTurnWithDocument fuel server topic roles numTurns discussion currentTurn
       currentRoleIndex language useDocument =
     step_loop fuel (next_turn_step server (Some useDocument) topic roles numTurns language)
       (start discussion currentTurn currentRoleIndex)"

subsection \<open>fetchNextContinuationTurn\<close>

definition continue_requestData ::
  "string \<Rightarrow> string list \<Rightarrow> jsnum \<Rightarrow> string \<Rightarrow> bool \<Rightarrow> message list \<Rightarrow> int \<Rightarrow> int \<Rightarrow> continue_request" where
  "continue_requestData topic roles additionalTurns language useDocument discussionData turn roleIndex =
     \<lparr>creq_discussion_data = discussionData, creq_topic = topic, creq_roles = roles,
      creq_num_additional_turns = additionalTurns, creq_language = language,
      creq_use_document = useDocument, creq_current_turn = turn,
      creq_current_role_index = roleIndex\<rparr>"

text \<open>
  \<^verbatim>\<open>fetchNextContinuationTurn(requestData, currentDiscussionData)\<close> works on two
  objects that it updates in place: the request object, whose \<^verbatim>\<open>discussion_data\<close> is a
  reference to an array, and the array \<^verbatim>\<open>currentDiscussionData\<close> that it pushes to.
  The state records the contents of both arrays and whether they are one and the same
  array (\<open>run_shared\<close>): a push to the transcript shows in the request body only then.
\<close>

record 'r shared_run = "'r run" +
  run_body :: "message list"
  run_shared :: bool

text \<open>
  One call of \<^verbatim>\<open>fetchNextContinuationTurn\<close>. The progress display shows the iteration
  plus one. A response without \<^verbatim>\<open>message\<close> only moves the cursor, and the next request
  follows at once; after a response with a message that does not complete the run,
  \<^verbatim>\<open>requestData.discussion_data\<close> is set to \<^verbatim>\<open>currentDiscussionData\<close>.
\<close>

definition push_message :: "message \<Rightarrow> continue_request shared_run \<Rightarrow> continue_request shared_run" where
  "push_message m st =
     st\<lparr>run_transcript := run_transcript st @ [m],
        run_body := (if run_shared st then run_body st @ [m] else run_body st)\<rparr>"

definition continuation_step ::
  "(nat \<Rightarrow> continue_request \<Rightarrow> response) \<Rightarrow> string \<Rightarrow> string list \<Rightarrow> jsnum \<Rightarrow> string \<Rightarrow> bool
     \<Rightarrow> continue_request shared_run \<Rightarrow> continue_request shared_run" where
  "continuation_step server topic roles additionalTurns language useDocument st =
     (let totalRoles = int (length roles);
          totalIterations = js_times additionalTurns totalRoles;
          currentIteration = run_turn st * totalRoles + run_roleIndex st;
          requestData = continue_requestData topic roles additionalTurns language useDocument
                          (run_body st) (run_turn st) (run_roleIndex st);
          data = server (length (run_requests st)) requestData;
          sent = st\<lparr>run_requests := run_requests st @ [requestData],
                    run_responses := run_responses st @ [data],
                    run_progress := run_progress st @ [(currentIteration + 1, totalIterations)]\<rparr>
      in case data of
           Rejected e \<Rightarrow> sent\<lparr>run_ending := Stopped (RequestError e)\<rparr>
         | Reply d \<Rightarrow>
             if truthy (r_error d) then sent\<lparr>run_ending := Stopped (ServerError (r_error d))\<rparr>
             else if r_message d = Undefined
               then sent\<lparr>run_turn := r_next_turn d, run_roleIndex := r_next_role_index d\<rparr>
             else
               let pushed = push_message (r_message d) sent in
               if r_is_complete d then pushed\<lparr>run_ending := Complete\<rparr>
               else pushed\<lparr>run_turn := r_next_turn d, run_roleIndex := r_next_role_index d,
                           run_body := run_transcript pushed, run_shared := True\<rparr>)"

definition start_shared :: "message list \<Rightarrow> message list \<Rightarrow> bool \<Rightarrow> int \<Rightarrow> int \<Rightarrow> continue_request shared_run" where
  "start_shared body discussion shared turn roleIndex =
     \<lparr>run_requests = [], run_responses = [], run_progress = [],
      run_transcript = discussion, run_turn = turn, run_roleIndex = roleIndex,
      run_ending = Pending, run_body = body, run_shared = shared\<rparr>"

text \<open>The argument \<open>same_array\<close> says whether \<^verbatim>\<open>requestData.discussion_data\<close> and
  \<^verbatim>\<open>currentDiscussionData\<close> are the same array when the function is first called.\<close>

definition fetchNextContinuationTurn ::
  "nat \<Rightarrow> (nat \<Rightarrow> continue_request \<Rightarrow> response) \<Rightarrow> continue_request \<Rightarrow> message list \<Rightarrow> bool
     \<Rightarrow> continue_request shared_run" where
  "fetchNextContinuationTurn fuel server requestData currentDiscussionData same_array =
     step_loop fuel
       (continuation_step server (creq_topic requestData) (creq_roles requestData)
          (creq_num_additional_turns requestData) (creq_language requestData)
          (creq_use_document requestData))
       (start_shared (creq_discussion_data requestData) currentDiscussionData same_array
          (creq_current_turn requestData) (creq_current_role_index requestData))"


section \<open>The handlers that start a run\<close>

text \<open>
  A string of the page is held as the bytes of its UTF-8 encoding (the page is served
  as UTF-8), so that a character outside ASCII takes two to four elements of the list.
  \<^verbatim>\<open>String.prototype.trim\<close> removes from both ends the code points of the ECMAScript
  productions \<^verbatim>\<open>WhiteSpace\<close> and \<^verbatim>\<open>LineTerminator\<close>: U+0009 to U+000D, U+0020,
  U+00A0, U+1680, U+2000 to U+200A, U+2028, U+2029, U+202F, U+205F, U+3000 and U+FEFF.
  \<open>white_space\<close> lists their encodings.
\<close>

definition white_space :: "string list" where
  "white_space =
     [[CHR 0x09], [CHR 0x0A], [CHR 0x0B], [CHR 0x0C], [CHR 0x0D], [CHR 0x20],
      [CHR 0xC2, CHR 0xA0],
      [CHR 0xE1, CHR 0x9A, CHR 0x80],
      [CHR 0xE2, CHR 0x80, CHR 0x80], [CHR 0xE2, CHR 0x80, CHR 0x81], [CHR 0xE2, CHR 0x80, CHR 0x82],
      [CHR 0xE2, CHR 0x80, CHR 0x83], [CHR 0xE2, CHR 0x80, CHR 0x84], [CHR 0xE2, CHR 0x80, CHR 0x85],
      [CHR 0xE2, CHR 0x80, CHR 0x86], [CHR 0xE2, CHR 0x80, CHR 0x87], [CHR 0xE2, CHR 0x80, CHR 0x88],
      [CHR 0xE2, CHR 0x80, CHR 0x89], [CHR 0xE2, CHR 0x80, CHR 0x8A],
      [CHR 0xE2, CHR 0x80, CHR 0xA8], [CHR 0xE2, CHR 0x80, CHR 0xA9], [CHR 0xE2, CHR 0x80, CHR 0xAF],
      [CHR 0xE2, CHR 0x81, CHR 0x9F],
      [CHR 0xE3, CHR 0x80, CHR 0x80],
      [CHR 0xEF, CHR 0xBB, CHR 0xBF]]"

text \<open>
  \<open>strip ws s\<close> removes from the front of \<open>s\<close> every leading occurrence of a
  sequence of \<open>ws\<close>. The end of a string is stripped on the reversed bytes, with the
  encodings reversed: in UTF-8 no encoding is the tail of another one.
\<close>

function strip :: "string list \<Rightarrow> string \<Rightarrow> string" where
  "strip ws s =
     (case find (\<lambda>w. w \<noteq> [] \<and> take (length w) s = w) ws of
        None \<Rightarrow> s
      | Some w \<Rightarrow> strip ws (drop (length w) s))"
  by pat_completeness auto

termination
proof (relation "measure (\<lambda>p. length (snd p))")
  show "wf (measure (\<lambda>p. length (snd p)))" by simp
next
  fix ws :: "string list" and s w :: string
  assume "find (\<lambda>w. w \<noteq> [] \<and> take (length w) s = w) ws = Some w"
  then have w: "w \<noteq> []" "take (length w) s = w"
    by (auto simp: find_Some_iff)
  from w(2) have "length (take (length w) s) = length w" by simp
  then have "length w \<le> length s" by simp
  with w(1) show "((ws, drop (length w) s), (ws, s)) \<in> measure (\<lambda>p. length (snd p))"
    by (cases w) simp_all
qed

declare strip.simps [simp del]

definition trim :: "string \<Rightarrow> string" where
  "trim s = rev (strip (map rev white_space) (rev (strip white_space s)))"

text \<open>\<^verbatim>\<open>Array.from(roleInputs).map(input => input.value.trim()).filter(role => role)\<close>\<close>

definition entered_roles :: "string list \<Rightarrow> string list" where
  "entered_roles roleInputs = filter (\<lambda>r. r \<noteq> []) (map trim roleInputs)"

definition generateDiscussion ::
  "nat \<Rightarrow> (nat \<Rightarrow> turn_request \<Rightarrow> response) \<Rightarrow> string \<Rightarrow> string list \<Rightarrow> jsnum \<Rightarrow> string \<Rightarrow> turn_request run" where
  "generateDiscussion fuel server topic roles numTurns language =
     generateNextTurn fuel server topic roles numTurns [] 0 0 language"

text \<open>\<^verbatim>\<open>handleFormSubmit\<close>: the arguments are the values of the topic field, of the
  \<^verbatim>\<open>role-input\<close> fields in document order, the result of \<^verbatim>\<open>parseInt\<close> on the turn
  field, and the selected language.\<close>

definition handleFormSubmit ::
  "nat \<Rightarrow> (nat \<Rightarrow> turn_request \<Rightarrow> response) \<Rightarrow> string \<Rightarrow> string list \<Rightarrow> jsnum \<Rightarrow> string \<Rightarrow> turn_request run" where
  "handleFormSubmit fuel server topicInput roleInputs numTurns language =
     (let topic = trim topicInput;
          roles = entered_roles roleInputs
      in if topic = [] then refused TopicMissing
         else if length roles < 2 then refused TooFewRoles
         else if js_lt numTurns 1 \<or> js_gt numTurns 10 then refused TurnsOutOfRange
         else generateDiscussion fuel server topic roles numTurns language)"

text \<open>
  The answer to \<^verbatim>\<open>GET /get-document-text\<close>: the request fails, or a JSON object with
  \<^verbatim>\<open>success\<close> and \<^verbatim>\<open>document_text\<close> arrives.
\<close>

datatype document_check = CheckRejected | CheckData bool "string option"


text \<open>\<^verbatim>\<open>generateDiscussionWithDocument\<close> of the latest version asks the server for the
  document once more before the first step.\<close>

definition generateDiscussionWithDocument ::
  "nat \<Rightarrow> (nat \<Rightarrow> turn_request \<Rightarrow> response) \<Rightarrow> document_check \<Rightarrow> string \<Rightarrow> string list \<Rightarrow> jsnum \<Rightarrow> string
     \<Rightarrow> turn_request run" where
  "generateDiscussionWithDocument fuel server check topic roles numTurns language =
     (case check of
        CheckRejected \<Rightarrow> refused DocumentCheckFailed
      | CheckData success document_text \<Rightarrow>
          if \<not> success \<or> \<not> truthy document_text then refused DocumentMissing
          else generateNextTurnWithDocument fuel server topic roles numTurns [] 0 0 language True)"

text \<open>\<^verbatim>\<open>handleGenerateWithDocument\<close> of the latest version: \<open>check1\<close> and \<open>check2\<close> are
  the answers to its own document request and to that of
  \<^verbatim>\<open>generateDiscussionWithDocument\<close>.\<close>

definition handleGenerateWithDocument ::
  "nat \<Rightarrow> (nat \<Rightarrow> turn_request \<Rightarrow> response) \<Rightarrow> document_check \<Rightarrow> document_check \<Rightarrow> string \<Rightarrow> string list
     \<Rightarrow> jsnum \<Rightarrow> string \<Rightarrow> turn_request run" where
  "handleGenerateWithDocument fuel server check1 check2 topicInput roleInputs numTurns language =
     (let topic = trim topicInput;
          roles = entered_roles roleInputs
      in if topic = [] then refused TopicMissing
         else if length roles < 2 then refused TooFewRoles
         else if js_lt numTurns 1 \<or> js_gt numTurns 10 then refused TurnsOutOfRange
         else case check1 of
                CheckRejected \<Rightarrow> refused DocumentCheckFailed
              | CheckData success document_text \<Rightarrow>
                  if success \<and> truthy document_text
                  then generateDiscussionWithDocument fuel server check2 topic roles numTurns language
                  else refused DocumentMissing)"

text \<open>The earlier version looks in the browser's session storage instead:
  \<open>uploadedDocument\<close> is the stored item, \<open>None\<close> when there is none.\<close>

definition handleGenerateWithDocument_early ::
  "nat \<Rightarrow> (nat \<Rightarrow> turn_request \<Rightarrow> response) \<Rightarrow> string option \<Rightarrow> string \<Rightarrow> string list
     \<Rightarrow> jsnum \<Rightarrow> string \<Rightarrow> turn_request run" where
  "handleGenerateWithDocument_early fuel server uploadedDocument topicInput roleInputs numTurns language =
     (let topic = trim topicInput;
          roles = entered_roles roleInputs
      in if topic = [] then refused TopicMissing
         else if length roles < 2 then refused TooFewRoles
         else if js_lt numTurns 1 \<or> js_gt numTurns 10 then refused TurnsOutOfRange
         else if \<not> truthy uploadedDocument then refused DocumentMissing
         else generateNextTurnWithDocument fuel server topic roles numTurns [] 0 0 language True)"

subsection \<open>Continuation\<close>

text \<open>
  The children of the discussion container, as far as the handlers tell them apart: a
  bubble with its role tag and its text, a consultant analysis, a system message, and
  anything else (continuation marker, document card).
\<close>

datatype element = Bubble string string | ConsultantMessage string | SystemMessage string | Other

text \<open>The role name that the latest version gives to a consultant analysis: the
  katakana word \<^verbatim>\<open>konsarutanto\<close> in UTF-8.\<close>

definition consultant_role :: string where
  "consultant_role =
     [CHR 0xE3, CHR 0x82, CHR 0xB3, CHR 0xE3, CHR 0x83, CHR 0xB3, CHR 0xE3, CHR 0x82, CHR 0xB5,
      CHR 0xE3, CHR 0x83, CHR 0xAB, CHR 0xE3, CHR 0x82, CHR 0xBF, CHR 0xE3, CHR 0x83, CHR 0xB3,
      CHR 0xE3, CHR 0x83, CHR 0x88]"

fun consultant_messages :: "element list \<Rightarrow> message list" where
  "consultant_messages [] = []"
| "consultant_messages (ConsultantMessage c # es) = Message consultant_role c # consultant_messages es"
| "consultant_messages (e # es) = consultant_messages es"

fun bubbles :: "element list \<Rightarrow> message list" where
  "bubbles [] = []"
| "bubbles (Bubble r c # es) = Message r c # bubbles es"
| "bubbles (e # es) = bubbles es"

text \<open>The latest version collects the consultant analyses first and the bubbles after
  them; the earlier version collects the bubbles only, which is the same on a page
  without consultant analyses.\<close>

definition collect_discussionData :: "element list \<Rightarrow> message list" where
  "collect_discussionData container = consultant_messages container @ bubbles container"

text \<open>\<^verbatim>\<open>Array.from(new Set(xs))\<close>: a set keeps its elements in insertion order, and
  adding an element that is there already changes nothing.\<close>

definition set_add :: "'a list \<Rightarrow> 'a \<Rightarrow> 'a list" where
  "set_add seen x = (if x \<in> set seen then seen else seen @ [x])"

definition array_from_set :: "'a list \<Rightarrow> 'a list" where
  "array_from_set xs = foldl set_add [] xs"

definition refused_shared :: "ui_error \<Rightarrow> continue_request shared_run" where
  "refused_shared e =
     \<lparr>run_requests = [], run_responses = [], run_progress = [],
      run_transcript = [], run_turn = 0, run_roleIndex = 0,
      run_ending = Stopped e, run_body = [], run_shared = True\<rparr>"

text \<open>\<^verbatim>\<open>handleContinueDiscussion\<close>: \<open>additionalTurns\<close> is the result of \<^verbatim>\<open>parseInt\<close>,
  \<open>container\<close> the children of the discussion container, \<open>topic\<close> the topic read back
  from the header.\<close>

definition handleContinueDiscussion ::
  "nat \<Rightarrow> (nat \<Rightarrow> continue_request \<Rightarrow> response) \<Rightarrow> jsnum \<Rightarrow> bool \<Rightarrow> element list \<Rightarrow> string \<Rightarrow> string
     \<Rightarrow> continue_request shared_run" where
  "handleContinueDiscussion fuel server additionalTurns useDocument container topic language =
     (if js_lt additionalTurns 1 \<or> js_gt additionalTurns 5 then refused_shared AdditionalTurnsOutOfRange
      else
        let discussionData = collect_discussionData container;
            roles = array_from_set (map role discussionData);
            requestData = continue_requestData topic roles additionalTurns language useDocument
                            discussionData 0 0
        in fetchNextContinuationTurn fuel server requestData discussionData True)"

subsection \<open>Guidance\<close>

record guidance_request =
  greq_discussion_data :: "message list"
  greq_topic :: string
  greq_instruction :: string
  greq_num_additional_turns :: jsnum
  greq_use_document :: bool
  greq_language :: string

text \<open>The answer to \<^verbatim>\<open>POST /provide-guidance\<close>: the request fails or times out, or a
  JSON object with \<^verbatim>\<open>error\<close> or \<^verbatim>\<open>discussion\<close> arrives.\<close>

datatype guidance_response = GuidanceRejected string | GuidanceData "string option" "message list"

text \<open>What a guidance run leaves behind: the requests it has sent, the value it has
  assigned to \<^verbatim>\<open>currentDiscussion\<close> (\<open>None\<close> when it has assigned none), and how it
  ended.\<close>

record guidance_run =
  gr_requests :: "guidance_request list"
  gr_currentDiscussion :: "message list option"
  gr_ending :: ending

definition handleProvideGuidance ::
  "(guidance_request \<Rightarrow> guidance_response) \<Rightarrow> string \<Rightarrow> jsnum \<Rightarrow> bool \<Rightarrow> element list \<Rightarrow> string \<Rightarrow> string
     \<Rightarrow> guidance_run" where
  "handleProvideGuidance server instructionInput numAdditionalTurns useDocument container topic language =
     (let instruction = trim instructionInput in
      if instruction = []
        then \<lparr>gr_requests = [], gr_currentDiscussion = None, gr_ending = Stopped InstructionMissing\<rparr>
      else if js_lt numAdditionalTurns 1 \<or> js_gt numAdditionalTurns 5
        then \<lparr>gr_requests = [], gr_currentDiscussion = None, gr_ending = Stopped AdditionalTurnsOutOfRange\<rparr>
      else
        let discussionData = collect_discussionData container;
            requestData = \<lparr>greq_discussion_data = discussionData, greq_topic = topic,
                           greq_instruction = instruction,
                           greq_num_additional_turns = numAdditionalTurns,
                           greq_use_document = useDocument, greq_language = language\<rparr>
        in case server requestData of
             GuidanceRejected e \<Rightarrow>
               \<lparr>gr_requests = [requestData], gr_currentDiscussion = None,
                gr_ending = Stopped (RequestError e)\<rparr>
           | GuidanceData err discussion \<Rightarrow>
               if truthy err
               then \<lparr>gr_requests = [requestData], gr_currentDiscussion = None,
                     gr_ending = Stopped (ServerError err)\<rparr>
               else \<lparr>gr_requests = [requestData], gr_currentDiscussion = Some discussion,
                     gr_ending = Complete\<rparr>)"


section \<open>What a step loop sends, in terms of what it has received\<close>

text \<open>
  The vocabulary of the statements about the step loops: the utterance that a response
  contributes to the transcript (none when it is an error or carries no message), whether
  a response is a failure and which error is then shown, the cursor it returns, and the
  utterances \<open>returned\<close> by a list of responses.
\<close>

definition utterance_of :: "response \<Rightarrow> message list" where
  "utterance_of r =
     (case r of
        Rejected e \<Rightarrow> []
      | Reply d \<Rightarrow> if truthy (r_error d) \<or> r_message d = Undefined then [] else [r_message d])"

definition failed :: "response \<Rightarrow> bool" where
  "failed r = (case r of Rejected e \<Rightarrow> True | Reply d \<Rightarrow> truthy (r_error d))"

definition failure :: "response \<Rightarrow> ui_error" where
  "failure r = (case r of Rejected e \<Rightarrow> RequestError e | Reply d \<Rightarrow> ServerError (r_error d))"

definition reply_cursor :: "response \<Rightarrow> int \<times> int" where
  "reply_cursor r = (case r of Rejected e \<Rightarrow> (0, 0) | Reply d \<Rightarrow> (r_next_turn d, r_next_role_index d))"

definition cursor_before :: "int \<times> int \<Rightarrow> response list \<Rightarrow> nat \<Rightarrow> int \<times> int" where
  "cursor_before c0 rs i = (case i of 0 \<Rightarrow> c0 | Suc j \<Rightarrow> reply_cursor (rs ! j))"

definition returned :: "response list \<Rightarrow> message list" where
  "returned rs = concat (map utterance_of rs)"

definition log_inv ::
  "(nat \<Rightarrow> 'r \<Rightarrow> response) \<Rightarrow> (message list \<Rightarrow> int \<times> int \<Rightarrow> 'r) \<Rightarrow> (response \<Rightarrow> bool) \<Rightarrow> message list \<Rightarrow> int \<times> int
     \<Rightarrow> ('r, 'z) run_scheme \<Rightarrow> bool" where
  "log_inv server mk continuing carried c0 st \<longleftrightarrow>
     length (run_responses st) = length (run_requests st)
   \<and> (\<forall>i < length (run_requests st). run_responses st ! i = server i (run_requests st ! i))
   \<and> (\<forall>i < length (run_requests st).
         run_requests st ! i =
           mk (carried @ returned (take i (run_responses st))) (cursor_before c0 (run_responses st) i))
   \<and> (\<forall>i < length (run_responses st).
         Suc i < length (run_responses st) \<or> run_ending st = Pending \<longrightarrow> continuing (run_responses st ! i))
   \<and> (run_ending st = Pending \<longrightarrow>
         run_transcript st = carried @ returned (run_responses st)
       \<and> (run_turn st, run_roleIndex st) = cursor_before c0 (run_responses st) (length (run_responses st)))
   \<and> (run_ending st \<noteq> Pending \<longrightarrow>
         run_responses st \<noteq> [] \<and> \<not> continuing (last (run_responses st))
       \<and> (failed (last (run_responses st)) \<longrightarrow>
             run_transcript st = carried @ returned (butlast (run_responses st))
           \<and> (run_turn st, run_roleIndex st) = cursor_before c0 (run_responses st) (length (run_responses st) - 1)
           \<and> run_ending st = Stopped (failure (last (run_responses st)))))"

definition step_ok ::
  "(nat \<Rightarrow> 'r \<Rightarrow> response) \<Rightarrow> (message list \<Rightarrow> int \<times> int \<Rightarrow> 'r) \<Rightarrow> (response \<Rightarrow> bool)
     \<Rightarrow> (('r, 'z) run_scheme \<Rightarrow> bool) \<Rightarrow> (('r, 'z) run_scheme \<Rightarrow> ('r, 'z) run_scheme) \<Rightarrow> bool" where
  "step_ok server mk continuing P step \<longleftrightarrow>
     (\<forall>st. P st \<and> run_ending st = Pending \<longrightarrow>
        run_requests (step st) = run_requests st @ [mk (run_transcript st) (run_turn st, run_roleIndex st)]
      \<and> run_responses (step st) =
          run_responses st @ [server (length (run_requests st)) (mk (run_transcript st) (run_turn st, run_roleIndex st))]
      \<and> (continuing (last (run_responses (step st))) \<longrightarrow>
            run_ending (step st) = Pending \<and> P (step st)
          \<and> run_transcript (step st) = run_transcript st @ utterance_of (last (run_responses (step st)))
          \<and> (run_turn (step st), run_roleIndex (step st)) = reply_cursor (last (run_responses (step st))))
      \<and> (\<not> continuing (last (run_responses (step st))) \<longrightarrow> run_ending (step st) \<noteq> Pending)
      \<and> (failed (last (run_responses (step st))) \<longrightarrow>
            \<not> continuing (last (run_responses (step st)))
          \<and> run_transcript (step st) = run_transcript st
          \<and> run_turn (step st) = run_turn st \<and> run_roleIndex (step st) = run_roleIndex st
          \<and> run_ending (step st) = Stopped (failure (last (run_responses (step st))))))"

lemma returned_snoc: "returned (rs @ [r]) = returned rs @ utterance_of r"
  by (simp add: returned_def)

lemma cursor_before_snoc:
  "i \<le> length rs \<Longrightarrow> cursor_before c0 (rs @ [r]) i = cursor_before c0 rs i"
  by (cases i) (simp_all add: cursor_before_def nth_append)

lemma cursor_before_last:
  "cursor_before c0 (rs @ [r]) (Suc (length rs)) = reply_cursor r"
  by (simp add: cursor_before_def)

lemma log_inv_step:
  assumes ok: "step_ok server mk continuing P step"
    and inv: "log_inv server mk continuing carried c0 st"
    and P: "P st" and pend: "run_ending st = Pending"
  shows "log_inv server mk continuing carried c0 (step st)"
proof -
  let ?rq = "mk (run_transcript st) (run_turn st, run_roleIndex st)"
  let ?r = "server (length (run_requests st)) ?rq"
  let ?st = "step st"
  from ok P pend have all:
      "run_requests ?st = run_requests st @ [?rq]
      \<and> run_responses ?st = run_responses st @ [?r]
      \<and> (continuing (last (run_responses ?st)) \<longrightarrow>
            run_ending ?st = Pending \<and> P ?st
          \<and> run_transcript ?st = run_transcript st @ utterance_of (last (run_responses ?st))
          \<and> (run_turn ?st, run_roleIndex ?st) = reply_cursor (last (run_responses ?st)))
      \<and> (\<not> continuing (last (run_responses ?st)) \<longrightarrow> run_ending ?st \<noteq> Pending)
      \<and> (failed (last (run_responses ?st)) \<longrightarrow>
            \<not> continuing (last (run_responses ?st))
          \<and> run_transcript ?st = run_transcript st
          \<and> run_turn ?st = run_turn st \<and> run_roleIndex ?st = run_roleIndex st
          \<and> run_ending ?st = Stopped (failure (last (run_responses ?st))))"
    unfolding step_ok_def by blast
  then have rq: "run_requests ?st = run_requests st @ [?rq]"
    and rs: "run_responses ?st = run_responses st @ [?r]"
    by blast+
  have lst: "last (run_responses ?st) = ?r" by (simp add: rs)
  from all have cont: "continuing ?r \<Longrightarrow> run_ending ?st = Pending \<and> P ?st
          \<and> run_transcript ?st = run_transcript st @ utterance_of ?r
          \<and> (run_turn ?st, run_roleIndex ?st) = reply_cursor ?r"
    unfolding lst by blast
  from all have stop: "\<not> continuing ?r \<Longrightarrow> run_ending ?st \<noteq> Pending"
    unfolding lst by blast
  from all have fail: "failed ?r \<Longrightarrow> \<not> continuing ?r
          \<and> run_transcript ?st = run_transcript st
          \<and> run_turn ?st = run_turn st \<and> run_roleIndex ?st = run_roleIndex st
          \<and> run_ending ?st = Stopped (failure ?r)"
    unfolding lst by blast
  from inv have len: "length (run_responses st) = length (run_requests st)"
    unfolding log_inv_def by blast
  from inv have srv: "i < length (run_requests st) \<Longrightarrow> run_responses st ! i = server i (run_requests st ! i)" for i
    unfolding log_inv_def by blast
  from inv have bod: "i < length (run_requests st) \<Longrightarrow> run_requests st ! i =
           mk (carried @ returned (take i (run_responses st))) (cursor_before c0 (run_responses st) i)" for i
    unfolding log_inv_def by blast
  from inv pend have con: "i < length (run_responses st) \<Longrightarrow> continuing (run_responses st ! i)" for i
    unfolding log_inv_def by blast
  from inv pend have tr: "run_transcript st = carried @ returned (run_responses st)"
    unfolding log_inv_def by blast
  from inv pend have cur: "(run_turn st, run_roleIndex st) = cursor_before c0 (run_responses st) (length (run_responses st))"
    unfolding log_inv_def by blast
  have 1: "length (run_responses ?st) = length (run_requests ?st)"
    by (simp add: rq rs len)
  have 2: "run_responses ?st ! i = server i (run_requests ?st ! i)" if "i < length (run_requests ?st)" for i
    using that srv by (auto simp: rq rs len nth_append less_Suc_eq)
  have 3: "run_requests ?st ! i =
           mk (carried @ returned (take i (run_responses ?st))) (cursor_before c0 (run_responses ?st) i)"
    if "i < length (run_requests ?st)" for i
  proof (cases "i < length (run_requests st)")
    case True
    then show ?thesis
      using bod [OF True] by (simp add: rq rs len nth_append cursor_before_snoc)
  next
    case False
    with that have i: "i = length (run_requests st)" by (simp add: rq)
    show ?thesis
      using tr cur by (simp add: i rq rs len cursor_before_snoc)
  qed
  have 4: "continuing (run_responses ?st ! i)"
    if "i < length (run_responses ?st)" "Suc i < length (run_responses ?st) \<or> run_ending ?st = Pending" for i
  proof (cases "i < length (run_responses st)")
    case True
    then show ?thesis using con by (simp add: rs nth_append)
  next
    case False
    with that have i: "i = length (run_responses st)" and "run_ending ?st = Pending"
      by (auto simp: rs)
    with stop show ?thesis by (auto simp: rs)
  qed
  have 5: "run_transcript ?st = carried @ returned (run_responses ?st)
       \<and> (run_turn ?st, run_roleIndex ?st) = cursor_before c0 (run_responses ?st) (length (run_responses ?st))"
    if "run_ending ?st = Pending"
  proof -
    from that stop have "continuing ?r" by blast
    from cont [OF this] show ?thesis
      by (simp add: rs tr returned_snoc cursor_before_last)
  qed
  have 6: "run_responses ?st \<noteq> [] \<and> \<not> continuing (last (run_responses ?st))
       \<and> (failed (last (run_responses ?st)) \<longrightarrow>
             run_transcript ?st = carried @ returned (butlast (run_responses ?st))
           \<and> (run_turn ?st, run_roleIndex ?st) = cursor_before c0 (run_responses ?st) (length (run_responses ?st) - 1)
           \<and> run_ending ?st = Stopped (failure (last (run_responses ?st))))"
    if "run_ending ?st \<noteq> Pending"
  proof -
    from that cont have "\<not> continuing ?r" by blast
    then show ?thesis
      using fail tr cur by (auto simp: rs cursor_before_snoc)
  qed
  show ?thesis
    unfolding log_inv_def using 1 2 3 4 5 6 by blast
qed


lemma step_ok_P:
  assumes "step_ok server mk continuing P step" "P st" "run_ending st = Pending"
    "run_ending (step st) = Pending"
  shows "P (step st)"
  using assms unfolding step_ok_def by blast

lemma log_inv_loop:
  assumes ok: "step_ok server mk continuing P step"
  shows "log_inv server mk continuing carried c0 st \<Longrightarrow> P st \<Longrightarrow> run_ending st = Pending
    \<Longrightarrow> log_inv server mk continuing carried c0 (step_loop fuel step st)"
proof (induction fuel arbitrary: st)
  case 0
  then show ?case by simp
next
  case (Suc fuel)
  have inv': "log_inv server mk continuing carried c0 (step st)"
    using log_inv_step [OF ok Suc.prems] .
  show ?case
  proof (cases "run_ending (step st) = Pending")
    case True
    have "P (step st)" using step_ok_P [OF ok Suc.prems(2,3) True] .
    from Suc.IH [OF inv' this True] True show ?thesis by simp
  next
    case False
    with inv' show ?thesis by simp
  qed
qed

lemma log_inv_start:
  "run_requests st = [] \<Longrightarrow> run_responses st = [] \<Longrightarrow> run_ending st = Pending
   \<Longrightarrow> run_transcript st = carried \<Longrightarrow> (run_turn st, run_roleIndex st) = c0
   \<Longrightarrow> log_inv server mk continuing carried c0 st"
  by (simp add: log_inv_def returned_def cursor_before_def)

definition continuing_turn :: "response \<Rightarrow> bool" where
  "continuing_turn r =
     (case r of
        Rejected e \<Rightarrow> False
      | Reply d \<Rightarrow> \<not> truthy (r_error d) \<and> r_message d \<noteq> Undefined \<and> \<not> r_is_complete d)"

definition continuing_continuation :: "response \<Rightarrow> bool" where
  "continuing_continuation r =
     (case r of
        Rejected e \<Rightarrow> False
      | Reply d \<Rightarrow> \<not> truthy (r_error d) \<and> (r_message d = Undefined \<or> \<not> r_is_complete d))"

lemma next_turn_step_ok:
  "step_ok server
     (\<lambda>discussion c. turn_requestData useDocument topic roles numTurns language discussion (fst c) (snd c))
     continuing_turn (\<lambda>st. True)
     (next_turn_step server useDocument topic roles numTurns language)"
  unfolding step_ok_def
  by (auto simp: next_turn_step_def Let_def continuing_turn_def failed_def failure_def
      utterance_of_def reply_cursor_def split: response.splits)

lemma continuation_step_ok:
  "step_ok server
     (\<lambda>discussion c. continue_requestData topic roles additionalTurns language useDocument discussion (fst c) (snd c))
     continuing_continuation (\<lambda>st. run_body st = run_transcript st \<and> run_shared st)
     (continuation_step server topic roles additionalTurns language useDocument)"
  unfolding step_ok_def
  by (auto simp: continuation_step_def Let_def continuing_continuation_def failed_def failure_def
      utterance_of_def reply_cursor_def push_message_def split: response.splits)


definition self_contained ::
  "(nat \<Rightarrow> 'r \<Rightarrow> response) \<Rightarrow> (message list \<Rightarrow> int \<times> int \<Rightarrow> 'r) \<Rightarrow> message list \<Rightarrow> int \<times> int
     \<Rightarrow> ('r, 'z) run_scheme \<Rightarrow> bool" where
  "self_contained server mk carried c0 out \<longleftrightarrow>
     length (run_responses out) = length (run_requests out)
   \<and> (\<forall>i < length (run_requests out).
         run_responses out ! i = server i (run_requests out ! i)
       \<and> run_requests out ! i =
           mk (carried @ returned (take i (run_responses out)))
              (case i of 0 \<Rightarrow> c0 | Suc j \<Rightarrow> reply_cursor (run_responses out ! j))
       \<and> (\<forall>j. i = Suc j \<longrightarrow> (\<exists>d. run_responses out ! j = Reply d \<and> \<not> truthy (r_error d))))"

definition failure_preserves ::
  "(message list \<Rightarrow> int \<times> int \<Rightarrow> 'r) \<Rightarrow> message list \<Rightarrow> ('r, 'z) run_scheme \<Rightarrow> bool" where
  "failure_preserves mk carried out \<longleftrightarrow>
     (\<forall>i < length (run_responses out). failed (run_responses out ! i) \<longrightarrow>
         length (run_requests out) = Suc i
       \<and> run_ending out = Stopped (failure (run_responses out ! i))
       \<and> run_transcript out = carried @ returned (take i (run_responses out))
       \<and> run_requests out ! i = mk (run_transcript out) (run_turn out, run_roleIndex out))"

lemma log_inv_self_contained:
  assumes inv: "log_inv server mk continuing carried c0 out"
    and reply: "\<And>r. continuing r \<Longrightarrow> \<exists>d. r = Reply d \<and> \<not> truthy (r_error d)"
  shows "self_contained server mk carried c0 out"
proof -
  from inv have len: "length (run_responses out) = length (run_requests out)"
    unfolding log_inv_def by blast
  from inv have srv: "i < length (run_requests out) \<Longrightarrow> run_responses out ! i = server i (run_requests out ! i)" for i
    unfolding log_inv_def by blast
  from inv have bod: "i < length (run_requests out) \<Longrightarrow> run_requests out ! i =
           mk (carried @ returned (take i (run_responses out))) (cursor_before c0 (run_responses out) i)" for i
    unfolding log_inv_def by blast
  from inv have con: "i < length (run_responses out) \<Longrightarrow> Suc i < length (run_responses out)
      \<Longrightarrow> continuing (run_responses out ! i)" for i
    unfolding log_inv_def by blast
  have prev: "\<exists>d. run_responses out ! j = Reply d \<and> \<not> truthy (r_error d)"
    if "Suc j < length (run_requests out)" for j
    using con [of j] that reply by (simp add: len)
  show ?thesis
    unfolding self_contained_def using len srv bod prev
    by (auto simp: cursor_before_def)
qed

lemma log_inv_failure_preserves:
  assumes inv: "log_inv server mk continuing carried c0 out"
    and excl: "\<And>r. failed r \<Longrightarrow> \<not> continuing r"
  shows "failure_preserves mk carried out"
  unfolding failure_preserves_def
proof (intro allI impI)
  fix i
  assume i: "i < length (run_responses out)" and f: "failed (run_responses out ! i)"
  from inv have len: "length (run_responses out) = length (run_requests out)"
    unfolding log_inv_def by blast
  from inv have bod: "run_requests out ! i =
           mk (carried @ returned (take i (run_responses out))) (cursor_before c0 (run_responses out) i)"
    using i unfolding log_inv_def by simp
  from inv i have con: "Suc i < length (run_responses out) \<or> run_ending out = Pending
      \<Longrightarrow> continuing (run_responses out ! i)"
    unfolding log_inv_def by blast
  from con excl [OF f] have nlt: "\<not> Suc i < length (run_responses out)" and np: "run_ending out \<noteq> Pending"
    by blast+
  from nlt i have last_i: "Suc i = length (run_responses out)" by linarith
  from last_i have lst: "last (run_responses out) = run_responses out ! i"
    by (metis diff_Suc_1 i last_conv_nth list.size(3) not_less_zero)
  from last_i have bl: "butlast (run_responses out) = take i (run_responses out)"
    by (metis butlast_conv_take diff_Suc_1)
  from inv np have F: "failed (last (run_responses out)) \<longrightarrow>
             run_transcript out = carried @ returned (butlast (run_responses out))
           \<and> (run_turn out, run_roleIndex out) = cursor_before c0 (run_responses out) (length (run_responses out) - 1)
           \<and> run_ending out = Stopped (failure (last (run_responses out)))"
    unfolding log_inv_def by blast
  have pred: "length (run_responses out) - 1 = i" using last_i by linarith
  from F f have tr: "run_transcript out = carried @ returned (take i (run_responses out))"
    and cur: "(run_turn out, run_roleIndex out) = cursor_before c0 (run_responses out) i"
    and en: "run_ending out = Stopped (failure (run_responses out ! i))"
    unfolding lst bl pred by blast+
  show "length (run_requests out) = Suc i
       \<and> run_ending out = Stopped (failure (run_responses out ! i))
       \<and> run_transcript out = carried @ returned (take i (run_responses out))
       \<and> run_requests out ! i = mk (run_transcript out) (run_turn out, run_roleIndex out)"
    using last_i len en tr cur bod by simp
qed



definition playback :: "response list \<Rightarrow> nat \<Rightarrow> 'r \<Rightarrow> response" where
  "playback rs k rq = (if k < length rs then rs ! k else Rejected ''no response'')"

definition ok_reply :: "string \<Rightarrow> string \<Rightarrow> bool \<Rightarrow> int \<Rightarrow> int \<Rightarrow> response" where
  "ok_reply r c complete turn roleIndex =
     Reply \<lparr>r_error = None, r_message = Message r c, r_is_complete = complete,
            r_next_turn = turn, r_next_role_index = roleIndex\<rparr>"

definition guidance_failed :: "guidance_response \<Rightarrow> bool" where
  "guidance_failed r = (case r of GuidanceRejected e \<Rightarrow> True | GuidanceData err discussion \<Rightarrow> truthy err)"

lemma continuing_turn_reply: "continuing_turn r \<Longrightarrow> \<exists>d. r = Reply d \<and> \<not> truthy (r_error d)"
  by (auto simp: continuing_turn_def split: response.splits)

lemma continuing_continuation_reply:
  "continuing_continuation r \<Longrightarrow> \<exists>d. r = Reply d \<and> \<not> truthy (r_error d)"
  by (auto simp: continuing_continuation_def split: response.splits)

lemma failed_not_continuing_turn: "failed r \<Longrightarrow> \<not> continuing_turn r"
  by (auto simp: continuing_turn_def failed_def split: response.splits)

lemma failed_not_continuing_continuation: "failed r \<Longrightarrow> \<not> continuing_continuation r"
  by (auto simp: continuing_continuation_def failed_def split: response.splits)

lemma next_turn_loop_inv:
  "log_inv server
     (\<lambda>discussion c. turn_requestData useDocument topic roles numTurns language discussion (fst c) (snd c))
     continuing_turn discussion (currentTurn, currentRoleIndex)
     (step_loop fuel (next_turn_step server useDocument topic roles numTurns language)
        (start discussion currentTurn currentRoleIndex))"
  by (rule log_inv_loop [OF next_turn_step_ok])
     (simp_all add: log_inv_start start_def)

lemma log_inv_refused:
  "run_requests st = [] \<Longrightarrow> run_responses st = [] \<Longrightarrow> self_contained server mk carried c0 st"
  "run_responses st = [] \<Longrightarrow> failure_preserves mk carried st"
  by (simp_all add: self_contained_def failure_preserves_def)

lemma fetchNextContinuationTurn_unfold:
  "fetchNextContinuationTurn fuel server
     (continue_requestData topic roles additionalTurns language useDocument body turn roleIndex)
     discussionData same_array =
   step_loop fuel (continuation_step server topic roles additionalTurns language useDocument)
     (start_shared body discussionData same_array turn roleIndex)"
  by (simp add: fetchNextContinuationTurn_def continue_requestData_def)

lemma continuation_loop_inv:
  "log_inv server
     (\<lambda>discussion c. continue_requestData topic roles additionalTurns language useDocument discussion (fst c) (snd c))
     continuing_continuation discussionData (0, 0)
     (fetchNextContinuationTurn fuel server
        (continue_requestData topic roles additionalTurns language useDocument discussionData 0 0)
        discussionData True)"
  unfolding fetchNextContinuationTurn_unfold
  by (rule log_inv_loop [OF continuation_step_ok])
     (simp_all add: log_inv_start start_shared_def)

lemma next_turn_loop_self_contained:
  "self_contained server
     (\<lambda>history cursor. turn_requestData useDocument topic roles numTurns language history (fst cursor) (snd cursor))
     discussion (currentTurn, currentRoleIndex)
     (step_loop fuel (next_turn_step server useDocument topic roles numTurns language)
        (start discussion currentTurn currentRoleIndex))"
  by (rule log_inv_self_contained [OF next_turn_loop_inv continuing_turn_reply])

lemma handleContinueDiscussion_self_contained:
  "self_contained cserver
     (\<lambda>history cursor. continue_requestData topic
         (array_from_set (map role (collect_discussionData container))) additionalTurns language
         useDocument history (fst cursor) (snd cursor))
     (collect_discussionData container) (0, 0)
     (handleContinueDiscussion fuel cserver additionalTurns useDocument container topic language)"
proof (cases "js_lt additionalTurns 1 \<or> js_gt additionalTurns 5")
  case True
  then show ?thesis
    by (simp add: handleContinueDiscussion_def refused_shared_def log_inv_refused)
next
  case False
  then show ?thesis
    unfolding handleContinueDiscussion_def Let_def
    by (simp add: log_inv_self_contained [OF continuation_loop_inv continuing_continuation_reply])
qed

lemma next_turn_loop_failure_preserves:
  "failure_preserves
     (\<lambda>history cursor. turn_requestData useDocument topic roles numTurns language history (fst cursor) (snd cursor))
     discussion
     (step_loop fuel (next_turn_step server useDocument topic roles numTurns language)
        (start discussion currentTurn currentRoleIndex))"
  by (rule log_inv_failure_preserves [OF next_turn_loop_inv failed_not_continuing_turn])

lemma handleContinueDiscussion_failure_preserves:
  "failure_preserves
     (\<lambda>history cursor. continue_requestData topic
         (array_from_set (map role (collect_discussionData container))) additionalTurns language
         useDocument history (fst cursor) (snd cursor))
     (collect_discussionData container)
     (handleContinueDiscussion fuel cserver additionalTurns useDocument container topic language)"
proof (cases "js_lt additionalTurns 1 \<or> js_gt additionalTurns 5")
  case True
  then show ?thesis
    by (simp add: handleContinueDiscussion_def refused_shared_def log_inv_refused)
next
  case False
  then show ?thesis
    unfolding handleContinueDiscussion_def Let_def
    by (simp add: log_inv_failure_preserves [OF continuation_loop_inv failed_not_continuing_continuation])
qed



definition guidance_failure :: "guidance_response \<Rightarrow> ui_error" where
  "guidance_failure r = (case r of GuidanceRejected e \<Rightarrow> RequestError e | GuidanceData err discussion \<Rightarrow> ServerError err)"


text \<open>
  Claim C3. In every run, when the response to request \<open>i\<close> is a failure (the request
  is rejected, or the JSON object carries an error), request \<open>i\<close> is the last one sent,
  the error is shown, the transcript is the carried-in history with the utterances of
  the earlier responses and nothing more, and the request that the state left behind
  would produce is request \<open>i\<close> itself: same transcript, same cursor. A guidance run
  sends one request; when it fails, \<^verbatim>\<open>currentDiscussion\<close> is not assigned.
\<close>

theorem failed_step_changes_nothing:
  "failure_preserves
     (\<lambda>history cursor. turn_requestData None topic roles numTurns language history (fst cursor) (snd cursor))
     discussion
     (generateNextTurn fuel server topic roles numTurns discussion currentTurn currentRoleIndex language)
   \<and> failure_preserves
     (\<lambda>history cursor. turn_requestData (Some useDocument) topic roles numTurns language history (fst cursor) (snd cursor))
     discussion
     (generateNextTurnWithDocument fuel server topic roles numTurns discussion currentTurn currentRoleIndex
        language useDocument)
   \<and> failure_preserves
     (\<lambda>history cursor. continue_requestData topic
         (array_from_set (map role (collect_discussionData container))) additionalTurns language
         useDocument history (fst cursor) (snd cursor))
     (collect_discussionData container)
     (handleContinueDiscussion fuel cserver additionalTurns useDocument container topic language)
   \<and> (\<forall>rq \<in> set (gr_requests (handleProvideGuidance gserver instruction additionalTurns useDocument container topic language)).
         guidance_failed (gserver rq) \<longrightarrow>
           gr_requests (handleProvideGuidance gserver instruction additionalTurns useDocument container topic language) = [rq]
         \<and> gr_currentDiscussion (handleProvideGuidance gserver instruction additionalTurns useDocument container topic language) = None
         \<and> gr_ending (handleProvideGuidance gserver instruction additionalTurns useDocument container topic language)
              = Stopped (guidance_failure (gserver rq)))"
proof -
  have guidance: "\<forall>rq \<in> set (gr_requests (handleProvideGuidance gserver instruction additionalTurns useDocument container topic language)).
         guidance_failed (gserver rq) \<longrightarrow>
           gr_requests (handleProvideGuidance gserver instruction additionalTurns useDocument container topic language) = [rq]
         \<and> gr_currentDiscussion (handleProvideGuidance gserver instruction additionalTurns useDocument container topic language) = None
         \<and> gr_ending (handleProvideGuidance gserver instruction additionalTurns useDocument container topic language)
              = Stopped (guidance_failure (gserver rq))"
    by (auto simp: handleProvideGuidance_def Let_def guidance_failed_def guidance_failure_def
        split: guidance_response.splits if_splits)
  show ?thesis
    unfolding generateNextTurn_def generateNextTurnWithDocument_def
    using next_turn_loop_failure_preserves handleContinueDiscussion_failure_preserves guidance
    by blast
qed

theorem failed_step_changes_nothing_witness:
  "failed (run_responses (generateNextTurn 5 (playback [ok_reply ''A'' ''x'' False 0 1, Rejected ''503''])
        ''t'' [''A'', ''B''] (Some 1) [] 0 0 ''ja'') ! 1)
   \<and> length (run_requests (generateNextTurn 5 (playback [ok_reply ''A'' ''x'' False 0 1, Rejected ''503''])
        ''t'' [''A'', ''B''] (Some 1) [] 0 0 ''ja'')) = 2
   \<and> run_transcript (generateNextTurn 5 (playback [ok_reply ''A'' ''x'' False 0 1, Rejected ''503''])
        ''t'' [''A'', ''B''] (Some 1) [] 0 0 ''ja'') = [Message ''A'' ''x'']
   \<and> run_ending (generateNextTurn 5 (playback [ok_reply ''A'' ''x'' False 0 1, Rejected ''503''])
        ''t'' [''A'', ''B''] (Some 1) [] 0 0 ''ja'') = Stopped (RequestError ''503'')"
proof -
  let ?out = "generateNextTurn 5 (playback [ok_reply ''A'' ''x'' False 0 1, Rejected ''503''])
        ''t'' [''A'', ''B''] (Some 1) [] 0 0 ''ja''"
  have pres: "failure_preserves
     (\<lambda>history cursor. turn_requestData None ''t'' [''A'', ''B''] (Some 1) ''ja'' history (fst cursor) (snd cursor))
     [] ?out"
    using failed_step_changes_nothing by blast
  have i: "1 < length (run_responses ?out)"
    by code_simp
  have f: "failed (run_responses ?out ! 1)"
    by code_simp
  have earlier: "returned (take 1 (run_responses ?out)) = [Message ''A'' ''x'']"
    by code_simp
  have err: "failure (run_responses ?out ! 1) = RequestError ''503''"
    by code_simp
  from pres i f have "length (run_requests ?out) = Suc 1
       \<and> run_ending ?out = Stopped (failure (run_responses ?out ! 1))
       \<and> run_transcript ?out = [] @ returned (take 1 (run_responses ?out))"
    unfolding failure_preserves_def by blast
  with f earlier err show ?thesis by simp
qed

definition cursor_reply :: "int \<Rightarrow> int \<Rightarrow> reply" where
  "cursor_reply turn roleIndex =
     \<lparr>r_error = None, r_message = Undefined, r_is_complete = False,
      r_next_turn = turn, r_next_role_index = roleIndex\<rparr>"

definition message_less :: "response \<Rightarrow> bool" where
  "message_less r = (case r of Rejected e \<Rightarrow> False | Reply d \<Rightarrow> \<not> truthy (r_error d) \<and> r_message d = Undefined)"

lemma continuation_step_requests:
  "length (run_requests (continuation_step server topic roles additionalTurns language useDocument st))
     = Suc (length (run_requests st))"
  by (simp add: continuation_step_def Let_def push_message_def split: response.splits)

section \<open>The server side of a step\<close>

text \<open>
  Modelled from the spec: the Model Gateway together with the Prompt Builder (sections
  4.2 and 6). The prompt is a pure function of the roster, the utterance history and the
  speaking role (topic, language and document text are fixed during a run), and the
  gateway returns generated text (\<open>Inr\<close>) or a classified error (\<open>Inl\<close>).
\<close>

type_synonym gateway = "string list \<Rightarrow> message list \<Rightarrow> string \<Rightarrow> string + string"

text \<open>
  Modelled from the spec: step 6 of \<^verbatim>\<open>produceNextUtterance\<close> in section 4.1. The server
  code that computes the cursor is not among the sources.
\<close>

definition nextCursor :: "int \<Rightarrow> int \<times> int \<Rightarrow> int \<times> int" where
  "nextCursor roleCount cursor =
     (if snd cursor + 1 < roleCount then (fst cursor, snd cursor + 1) else (fst cursor + 1, 0))"

text \<open>
  Modelled from the spec: the error response of a step (sections 7 and 8, P3): a
  structured error, the cursor unchanged, no utterance.
\<close>

definition error_reply :: "string \<Rightarrow> int \<times> int \<Rightarrow> response" where
  "error_reply e cursor =
     Reply \<lparr>r_error = Some e, r_message = Undefined, r_is_complete = False,
            r_next_turn = fst cursor, r_next_role_index = snd cursor\<rparr>"

text \<open>
  Modelled from the spec: the operation \<^verbatim>\<open>produceNextUtterance\<close> of the Turn Sequencer
  (section 4.1), which the server runs for every step request and whose code is not among
  the sources. The preconditions are checked first (\<^verbatim>\<open>InvalidInput\<close>; \<open>maxTurns\<close> is 10
  for fresh generation and 5 for continuation), then the document when grounding is
  requested (\<^verbatim>\<open>DocumentUnavailable\<close>), then the gateway is called; the text is wrapped
  as the speaking role's utterance, the cursor is advanced, and the run is complete when
  the next turn reaches the requested number of turns.
\<close>

definition produceNextUtterance ::
  "int \<Rightarrow> gateway \<Rightarrow> string option \<Rightarrow> string list \<Rightarrow> jsnum \<Rightarrow> message list \<Rightarrow> int \<times> int \<Rightarrow> bool \<Rightarrow> response" where
  "produceNextUtterance maxTurns gateway document roleList totalTurns history cursor useDocument =
     (let roleCount = int (length roleList) in
      case totalTurns of
        None \<Rightarrow> error_reply ''InvalidInput'' cursor
      | Some turns \<Rightarrow>
          if roleCount < 2 \<or> turns < 1 \<or> maxTurns < turns
             \<or> fst cursor < 0 \<or> snd cursor < 0 \<or> roleCount \<le> snd cursor
          then error_reply ''InvalidInput'' cursor
          else
            let speakingRole = roleList ! nat (snd cursor) in
            if useDocument \<and> document = None then error_reply ''DocumentUnavailable'' cursor
            else
              case gateway roleList history speakingRole of
                Inl e \<Rightarrow> error_reply e cursor
              | Inr text \<Rightarrow>
                  let next = nextCursor roleCount cursor in
                  Reply \<lparr>r_error = None, r_message = Message speakingRole text,
                         r_is_complete = (turns \<le> fst next),
                         r_next_turn = fst next, r_next_role_index = snd next\<rparr>)"

text \<open>
  Modelled from the spec: the endpoint behind \<^verbatim>\<open>POST /generate-next-turn\<close>, which reads
  the fields of the request body as the \<^verbatim>\<open>DiscussionRequest\<close> of section 3.
\<close>

definition generate_next_turn_endpoint :: "gateway \<Rightarrow> string option \<Rightarrow> turn_request \<Rightarrow> response" where
  "generate_next_turn_endpoint gateway document rq =
     produceNextUtterance 10 gateway document (req_roles rq) (req_numTurns rq) (req_discussion rq)
       (req_currentTurn rq, req_currentRoleIndex rq) (req_use_document rq = Some True)"

text \<open>
  Modelled from the spec: the endpoint behind \<^verbatim>\<open>POST /continue-discussion\<close>, started
  directly at the first utterance (section 4.1 allows either this or an initial reply
  without utterance).
\<close>

definition continue_discussion_endpoint :: "gateway \<Rightarrow> string option \<Rightarrow> continue_request \<Rightarrow> response" where
  "continue_discussion_endpoint gateway document rq =
     produceNextUtterance 5 gateway document (creq_roles rq) (creq_num_additional_turns rq)
       (creq_discussion_data rq) (creq_current_turn rq, creq_current_role_index rq)
       (creq_use_document rq)"

lemma nextCursor_div_mod:
  assumes "0 < R"
  shows "nextCursor (int R) (int (k div R), int (k mod R)) = (int (Suc k div R), int (Suc k mod R))"
proof (cases "Suc (k mod R) = R")
  case True
  then have "Suc k mod R = 0" "Suc k div R = Suc (k div R)"
    by (simp_all add: mod_Suc div_Suc)
  with True show ?thesis by (auto simp: nextCursor_def)
next
  case False
  with assms have lt: "Suc (k mod R) < R"
    by (metis Suc_lessI mod_less_divisor)
  from False have "Suc k mod R = Suc (k mod R)" "Suc k div R = k div R"
    by (simp_all add: mod_Suc div_Suc)
  with lt show ?thesis by (auto simp: nextCursor_def)
qed

lemma complete_iff:
  assumes "0 < R" "0 \<le> T"
  shows "T \<le> int (Suc k div R) \<longleftrightarrow> R * nat T \<le> Suc k"
proof -
  have "T \<le> int (Suc k div R) \<longleftrightarrow> nat T \<le> Suc k div R" using assms(2) by linarith
  also have "\<dots> \<longleftrightarrow> nat T * R \<le> Suc k" using assms(1) by (simp add: less_eq_div_iff_mult_less_eq)
  finally show ?thesis by (simp add: mult.commute)
qed

text \<open>One successful step of the sequencer at position k of the run.\<close>

lemma produceNextUtterance_at:
  assumes R: "2 \<le> length roles" and T: "1 \<le> T" "T \<le> maxTurns"
    and doc: "\<not> (useDocument \<and> document = None)"
    and gw: "gateway roles history (roles ! (k mod length roles)) = Inr text"
  shows "produceNextUtterance maxTurns gateway document roles (Some T) history
           (int (k div length roles), int (k mod length roles)) useDocument
         = Reply \<lparr>r_error = None, r_message = Message (roles ! (k mod length roles)) text,
                  r_is_complete = (length roles * nat T \<le> Suc k),
                  r_next_turn = int (Suc k div length roles),
                  r_next_role_index = int (Suc k mod length roles)\<rparr>"
proof -
  from R have pos: "0 < length roles" by linarith
  have idx: "int (k mod length roles) < int (length roles)" using pos by simp
  from T have T0: "0 \<le> T" by linarith
  from doc have nodoc: "(useDocument \<and> document = None) = False" by simp
  show ?thesis
    unfolding produceNextUtterance_def Let_def nodoc
    using R T gw idx
    by (simp add: nextCursor_div_mod [OF pos] complete_iff [OF pos T0])
qed


subsection \<open>A run in which every step succeeds\<close>

definition reports_complete :: "response \<Rightarrow> bool" where
  "reports_complete r = (case r of Rejected e \<Rightarrow> False | Reply d \<Rightarrow> r_is_complete d)"

definition advances ::
  "nat \<Rightarrow> string list \<Rightarrow> (('r, 'z) run_scheme \<Rightarrow> bool) \<Rightarrow> (('r, 'z) run_scheme \<Rightarrow> ('r, 'z) run_scheme) \<Rightarrow> bool" where
  "advances N roles P step \<longleftrightarrow>
     (\<forall>st. P st \<and> run_ending st = Pending \<and> length (run_requests st) < N
          \<and> run_turn st = int (length (run_requests st) div length roles)
          \<and> run_roleIndex st = int (length (run_requests st) mod length roles) \<longrightarrow>
        (\<exists>text.
            length (run_requests (step st)) = Suc (length (run_requests st))
          \<and> map reports_complete (run_responses (step st))
              = map reports_complete (run_responses st) @ [N \<le> Suc (length (run_requests st))]
          \<and> map fst (run_progress (step st))
              = map fst (run_progress st) @ [int (length (run_requests st)) + 1]
          \<and> run_transcript (step st)
              = run_transcript st @ [Message (roles ! (length (run_requests st) mod length roles)) text]
          \<and> (if N \<le> Suc (length (run_requests st)) then run_ending (step st) = Complete
              else run_ending (step st) = Pending \<and> P (step st)
                 \<and> run_turn (step st) = int (Suc (length (run_requests st)) div length roles)
                 \<and> run_roleIndex (step st) = int (Suc (length (run_requests st)) mod length roles))))"

definition cycling :: "string list \<Rightarrow> nat \<Rightarrow> message list \<Rightarrow> bool" where
  "cycling roles k new \<longleftrightarrow>
     (\<forall>j < length new. \<exists>text. new ! j = Message (roles ! ((k + j) mod length roles)) text)"

lemma cycling_Cons:
  "cycling roles k (m # new) \<longleftrightarrow>
     (\<exists>text. m = Message (roles ! (k mod length roles)) text) \<and> cycling roles (Suc k) new"
  unfolding cycling_def
  by (auto simp: nth_Cons split: nat.splits)

lemma advances_loop:
  assumes adv: "advances N roles P step"
  shows "P st \<Longrightarrow> run_ending st = Pending \<Longrightarrow> length (run_requests st) = k \<Longrightarrow> k < N
    \<Longrightarrow> run_turn st = int (k div length roles) \<Longrightarrow> run_roleIndex st = int (k mod length roles)
    \<Longrightarrow> N - k \<le> fuel
    \<Longrightarrow> run_ending (step_loop fuel step st) = Complete
      \<and> length (run_requests (step_loop fuel step st)) = N
      \<and> map fst (run_progress (step_loop fuel step st))
          = map fst (run_progress st) @ map (\<lambda>j. int j + 1) [k..<N]
      \<and> map reports_complete (run_responses (step_loop fuel step st))
          = map reports_complete (run_responses st) @ map (\<lambda>j. N \<le> Suc j) [k..<N]
      \<and> (\<exists>new. run_transcript (step_loop fuel step st) = run_transcript st @ new
             \<and> length new = N - k \<and> cycling roles k new)"
proof (induction fuel arbitrary: st k)
  case 0
  then show ?case by simp
next
  case (Suc fuel)
  from adv Suc.prems obtain w where
      len: "length (run_requests (step st)) = Suc k"
    and rc: "map reports_complete (run_responses (step st))
              = map reports_complete (run_responses st) @ [N \<le> Suc k]"
    and pr: "map fst (run_progress (step st)) = map fst (run_progress st) @ [int k + 1]"
    and tr: "run_transcript (step st) = run_transcript st @ [Message (roles ! (k mod length roles)) w]"
    and nx: "if N \<le> Suc k then run_ending (step st) = Complete
              else run_ending (step st) = Pending \<and> P (step st)
                 \<and> run_turn (step st) = int (Suc k div length roles)
                 \<and> run_roleIndex (step st) = int (Suc k mod length roles)"
    unfolding advances_def by blast
  show ?case
  proof (cases "N \<le> Suc k")
    case True
    with Suc.prems(4) have N: "N = Suc k" by linarith
    from True nx have fin: "run_ending (step st) = Complete" by simp
    then have out: "step_loop (Suc fuel) step st = step st" by (simp add: Let_def)
    have one: "[k..<N] = [k]" by (simp add: N)
    have "cycling roles k [Message (roles ! (k mod length roles)) w]"
      by (simp add: cycling_def)
    then show ?thesis
      unfolding out one using fin len rc pr tr N by simp
  next
    case False
    with nx have pend: "run_ending (step st) = Pending" and P': "P (step st)"
      and t': "run_turn (step st) = int (Suc k div length roles)"
      and i': "run_roleIndex (step st) = int (Suc k mod length roles)"
      by simp_all
    from False have lt: "Suc k < N" by linarith
    from Suc.prems(7) have fuel: "N - Suc k \<le> fuel" by linarith
    from pend have out: "step_loop (Suc fuel) step st = step_loop fuel step (step st)"
      by (simp add: Let_def)
    from Suc.IH [OF P' pend len lt t' i' fuel] obtain new where
        e: "run_ending (step_loop fuel step (step st)) = Complete"
      and n: "length (run_requests (step_loop fuel step (step st))) = N"
      and p: "map fst (run_progress (step_loop fuel step (step st)))
          = map fst (run_progress (step st)) @ map (\<lambda>j. int j + 1) [Suc k..<N]"
      and c: "map reports_complete (run_responses (step_loop fuel step (step st)))
          = map reports_complete (run_responses (step st)) @ map (\<lambda>j. N \<le> Suc j) [Suc k..<N]"
      and t: "run_transcript (step_loop fuel step (step st)) = run_transcript (step st) @ new"
      and l: "length new = N - Suc k" and cy: "cycling roles (Suc k) new"
      by blast
    have upt: "[k..<N] = k # [Suc k..<N]" using Suc.prems(4) by (simp add: upt_conv_Cons)
    have cy': "cycling roles k (Message (roles ! (k mod length roles)) w # new)"
      using cy by (simp add: cycling_Cons)
    have l': "length (Message (roles ! (k mod length roles)) w # new) = N - k"
      using l lt by simp
    have t'': "run_transcript (step_loop fuel step (step st))
        = run_transcript st @ (Message (roles ! (k mod length roles)) w # new)"
      using t tr by simp
    show ?thesis
      unfolding out upt using e n p c pr rc False t'' l' cy' by auto
  qed
qed


lemma next_turn_step_reply:
  assumes "server (length (run_requests st))
             (turn_requestData useDocument topic roles numTurns language
                (run_transcript st) (run_turn st) (run_roleIndex st)) = Reply d"
    and "\<not> truthy (r_error d)" and "r_message d \<noteq> Undefined"
  shows "length (run_requests (next_turn_step server useDocument topic roles numTurns language st))
           = Suc (length (run_requests st))"
    and "run_responses (next_turn_step server useDocument topic roles numTurns language st)
           = run_responses st @ [Reply d]"
    and "map fst (run_progress (next_turn_step server useDocument topic roles numTurns language st))
           = map fst (run_progress st) @ [run_turn st * int (length roles) + run_roleIndex st + 1]"
    and "run_transcript (next_turn_step server useDocument topic roles numTurns language st)
           = run_transcript st @ [r_message d]"
    and "run_ending (next_turn_step server useDocument topic roles numTurns language st)
           = (if r_is_complete d then Complete else run_ending st)"
    and "\<not> r_is_complete d \<Longrightarrow>
           run_turn (next_turn_step server useDocument topic roles numTurns language st) = r_next_turn d
         \<and> run_roleIndex (next_turn_step server useDocument topic roles numTurns language st) = r_next_role_index d"
  using assms by (simp_all add: next_turn_step_def Let_def)

lemma continuation_step_reply:
  assumes "server (length (run_requests st))
             (continue_requestData topic roles additionalTurns language useDocument
                (run_body st) (run_turn st) (run_roleIndex st)) = Reply d"
    and "\<not> truthy (r_error d)" and "r_message d \<noteq> Undefined"
  shows "length (run_requests (continuation_step server topic roles additionalTurns language useDocument st))
           = Suc (length (run_requests st))"
    and "run_responses (continuation_step server topic roles additionalTurns language useDocument st)
           = run_responses st @ [Reply d]"
    and "map fst (run_progress (continuation_step server topic roles additionalTurns language useDocument st))
           = map fst (run_progress st) @ [run_turn st * int (length roles) + run_roleIndex st + 1]"
    and "run_transcript (continuation_step server topic roles additionalTurns language useDocument st)
           = run_transcript st @ [r_message d]"
    and "run_ending (continuation_step server topic roles additionalTurns language useDocument st)
           = (if r_is_complete d then Complete else run_ending st)"
    and "\<not> r_is_complete d \<Longrightarrow>
           run_turn (continuation_step server topic roles additionalTurns language useDocument st) = r_next_turn d
         \<and> run_roleIndex (continuation_step server topic roles additionalTurns language useDocument st) = r_next_role_index d
         \<and> run_body (continuation_step server topic roles additionalTurns language useDocument st)
             = run_transcript (continuation_step server topic roles additionalTurns language useDocument st)
         \<and> run_shared (continuation_step server topic roles additionalTurns language useDocument st)"
  using assms by (simp_all add: continuation_step_def Let_def push_message_def)

lemma position: "int (k div R) * int R + int (k mod R) = int k"
  by (metis div_mult_mod_eq of_nat_add of_nat_mult)

lemma next_turn_advances:
  assumes R: "2 \<le> length roles" and T: "1 \<le> T" "T \<le> 10"
    and doc: "\<not> (useDocument = Some True \<and> document = None)"
    and gw: "\<And>k roster history speaker. \<exists>w. gateway k roster history speaker = Inr w"
  shows "advances (length roles * nat T) roles (\<lambda>st. True)
           (next_turn_step (\<lambda>k. generate_next_turn_endpoint (gateway k) document)
              useDocument topic roles (Some T) language)"
  unfolding advances_def
proof (intro allI impI)
  fix st :: "turn_request run"
  let ?k = "length (run_requests st)"
  let ?N = "length roles * nat T"
  let ?server = "\<lambda>k. generate_next_turn_endpoint (gateway k) document"
  let ?step = "next_turn_step ?server useDocument topic roles (Some T) language"
  let ?d = "\<lambda>w. \<lparr>r_error = None, r_message = Message (roles ! (?k mod length roles)) w,
                  r_is_complete = (?N \<le> Suc ?k),
                  r_next_turn = int (Suc ?k div length roles),
                  r_next_role_index = int (Suc ?k mod length roles)\<rparr>"
  assume a: "True \<and> run_ending st = Pending \<and> ?k < ?N
          \<and> run_turn st = int (?k div length roles)
          \<and> run_roleIndex st = int (?k mod length roles)"
  then have pend: "run_ending st = Pending" and t: "run_turn st = int (?k div length roles)"
    and i: "run_roleIndex st = int (?k mod length roles)" by blast+
  from gw obtain w where w: "gateway ?k roles (run_transcript st) (roles ! (?k mod length roles)) = Inr w"
    by blast
  have reply: "?server ?k
        (turn_requestData useDocument topic roles (Some T) language (run_transcript st)
           (run_turn st) (run_roleIndex st))
      = Reply (?d w)"
    unfolding generate_next_turn_endpoint_def turn_requestData_def t i
    using produceNextUtterance_at
      [of roles T 10 "useDocument = Some True" document "gateway ?k" "run_transcript st" ?k w,
       OF R T doc w]
    by simp
  have ok: "\<not> truthy (r_error (?d w))" "r_message (?d w) \<noteq> Undefined"
    by (simp_all add: truthy_def)
  note s = next_turn_step_reply [of ?server st useDocument topic roles "Some T" language "?d w", OF reply ok]
  have "length (run_requests (?step st)) = Suc ?k
          \<and> map reports_complete (run_responses (?step st))
              = map reports_complete (run_responses st) @ [?N \<le> Suc ?k]
          \<and> map fst (run_progress (?step st)) = map fst (run_progress st) @ [int ?k + 1]
          \<and> run_transcript (?step st) = run_transcript st @ [Message (roles ! (?k mod length roles)) w]
          \<and> (if ?N \<le> Suc ?k then run_ending (?step st) = Complete
              else run_ending (?step st) = Pending \<and> True
                 \<and> run_turn (?step st) = int (Suc ?k div length roles)
                 \<and> run_roleIndex (?step st) = int (Suc ?k mod length roles))"
    using s pend by (simp add: reports_complete_def t i position)
  then show "\<exists>text. length (run_requests (?step st)) = Suc ?k
          \<and> map reports_complete (run_responses (?step st))
              = map reports_complete (run_responses st) @ [?N \<le> Suc ?k]
          \<and> map fst (run_progress (?step st)) = map fst (run_progress st) @ [int ?k + 1]
          \<and> run_transcript (?step st) = run_transcript st @ [Message (roles ! (?k mod length roles)) text]
          \<and> (if ?N \<le> Suc ?k then run_ending (?step st) = Complete
              else run_ending (?step st) = Pending \<and> True
                 \<and> run_turn (?step st) = int (Suc ?k div length roles)
                 \<and> run_roleIndex (?step st) = int (Suc ?k mod length roles))"
    by blast
qed


definition full_run :: "string list \<Rightarrow> nat \<Rightarrow> message list \<Rightarrow> ('r, 'z) run_scheme \<Rightarrow> bool" where
  "full_run roles N carried out \<longleftrightarrow>
     length (run_requests out) = N
   \<and> map fst (run_progress out) = map (\<lambda>j. int j + 1) [0..<N]
   \<and> map reports_complete (run_responses out) = replicate (N - 1) False @ [True]
   \<and> (\<exists>new. run_transcript out = carried @ new \<and> length new = N \<and> cycling roles 0 new)
   \<and> run_ending out = Complete"

lemma last_step_only:
  assumes "0 < N"
  shows "map (\<lambda>j. N \<le> Suc j) [0..<N] = replicate (N - 1) False @ [True]"
proof -
  from assms obtain n where N: "N = Suc n" by (cases N) auto
  have "map (\<lambda>j. Suc n \<le> Suc j) [0..<n] = replicate n False"
    by (simp add: list_eq_iff_nth_eq)
  then show ?thesis by (simp add: N)
qed

lemma advances_full_run:
  assumes adv: "advances N roles P step" and N: "0 < N"
    and st: "P st" "run_ending st = Pending" "run_requests st = []" "run_responses st = []"
      "run_progress st = []" "run_turn st = 0" "run_roleIndex st = 0"
    and fuel: "N \<le> fuel"
  shows "full_run roles N (run_transcript st) (step_loop fuel step st)"
proof -
  have "run_ending (step_loop fuel step st) = Complete
      \<and> length (run_requests (step_loop fuel step st)) = N
      \<and> map fst (run_progress (step_loop fuel step st))
          = map fst (run_progress st) @ map (\<lambda>j. int j + 1) [0..<N]
      \<and> map reports_complete (run_responses (step_loop fuel step st))
          = map reports_complete (run_responses st) @ map (\<lambda>j. N \<le> Suc j) [0..<N]
      \<and> (\<exists>new. run_transcript (step_loop fuel step st) = run_transcript st @ new
             \<and> length new = N - 0 \<and> cycling roles 0 new)"
    by (rule advances_loop [OF adv st(1,2)]) (use st N fuel in simp_all)
  then show ?thesis
    unfolding full_run_def using st last_step_only [OF N] by simp
qed

lemma steps_positive: "2 \<le> length roles \<Longrightarrow> (1::int) \<le> T \<Longrightarrow> 0 < length roles * nat T"
  by (cases roles) simp_all

lemma next_turn_step_totals:
  assumes "\<forall>p \<in> set (run_progress st). snd p = js_times numTurns (int (length roles))"
  shows "\<forall>p \<in> set (run_progress (next_turn_step server useDocument topic roles numTurns language st)).
           snd p = js_times numTurns (int (length roles))"
  using assms by (auto simp: next_turn_step_def Let_def split: response.splits)

lemma step_loop_invariant:
  assumes "\<And>st. Q st \<Longrightarrow> Q (step st)" "Q st"
  shows "Q (step_loop fuel step st)"
  using assms(2)
proof (induction fuel arbitrary: st)
  case 0
  then show ?case by simp
next
  case (Suc fuel)
  from Suc.prems have "Q (step st)" by (rule assms(1))
  with Suc.IH [of "step st"] show ?case by (simp add: Let_def)
qed

lemma next_turn_loop_totals:
  "\<forall>p \<in> set (run_progress (step_loop fuel (next_turn_step server useDocument topic roles numTurns language)
        (start discussion currentTurn currentRoleIndex))).
     snd p = js_times numTurns (int (length roles))"
  by (rule step_loop_invariant [where Q = "\<lambda>st. \<forall>p \<in> set (run_progress st). snd p = js_times numTurns (int (length roles))"])
     (simp_all add: next_turn_step_totals start_def)

text \<open>
  Claim C1. A fresh run (plain or with a stored document) over a roster of \<open>R\<close> roles
  and \<open>T\<close> requested turns, against a server that follows the specification and whose
  model calls all succeed: the loop sends exactly \<open>R * T\<close> requests, whatever the number
  of requests it is allowed beyond that; the progress display counts
  \<open>turn * R + roleIndex + 1\<close> from \<open>1\<close> to \<open>R * T\<close>, out of a total of
  \<open>numTurns * roles.length\<close>; each response adds one utterance,
  spoken by the roster roles in turn; the responses report \<^verbatim>\<open>is_complete\<close> as false
  \<open>R * T - 1\<close> times and then as true, and with that response the run ends.
\<close>

theorem fresh_run_takes_R_times_T_steps:
  assumes R: "2 \<le> length roles" and T: "1 \<le> T" "T \<le> 10"
    and gw: "\<And>k roster history speaker. \<exists>w. gateway k roster history speaker = Inr w"
    and fuel: "length roles * nat T \<le> fuel"
  shows "full_run roles (length roles * nat T) []
           (generateDiscussion fuel (\<lambda>k. generate_next_turn_endpoint (gateway k) document)
              topic roles (Some T) language)
       \<and> full_run roles (length roles * nat T) []
           (generateNextTurnWithDocument fuel
              (\<lambda>k. generate_next_turn_endpoint (gateway k) (Some document_text))
              topic roles (Some T) [] 0 0 language True)
       \<and> (\<forall>p \<in> set (run_progress
              (generateDiscussion fuel (\<lambda>k. generate_next_turn_endpoint (gateway k) document)
                 topic roles (Some T) language)).
            snd p = Some (T * int (length roles)))
       \<and> (\<forall>p \<in> set (run_progress
              (generateNextTurnWithDocument fuel
                 (\<lambda>k. generate_next_turn_endpoint (gateway k) (Some document_text))
                 topic roles (Some T) [] 0 0 language True)).
            snd p = Some (T * int (length roles)))"
proof (intro conjI)
  have doc: "\<not> (None = Some True \<and> document = None)" by simp
  show "full_run roles (length roles * nat T) []
           (generateDiscussion fuel (\<lambda>k. generate_next_turn_endpoint (gateway k) document)
              topic roles (Some T) language)"
    unfolding generateDiscussion_def generateNextTurn_def
    using advances_full_run [OF next_turn_advances [OF R T doc gw] steps_positive [OF R T(1)] _ _ _ _ _ _ _ fuel,
        where st = "start [] 0 0"]
    by (simp add: start_def)
  have doc': "\<not> (Some True = Some True \<and> Some document_text = None)" by simp
  show "full_run roles (length roles * nat T) []
           (generateNextTurnWithDocument fuel
              (\<lambda>k. generate_next_turn_endpoint (gateway k) (Some document_text))
              topic roles (Some T) [] 0 0 language True)"
    unfolding generateNextTurnWithDocument_def
    using advances_full_run [OF next_turn_advances [OF R T doc' gw] steps_positive [OF R T(1)] _ _ _ _ _ _ _ fuel,
        where st = "start [] 0 0"]
    by (simp add: start_def)
  show "\<forall>p \<in> set (run_progress
              (generateDiscussion fuel (\<lambda>k. generate_next_turn_endpoint (gateway k) document)
                 topic roles (Some T) language)).
            snd p = Some (T * int (length roles))"
    unfolding generateDiscussion_def generateNextTurn_def
    using next_turn_loop_totals [where numTurns = "Some T" and roles = roles]
    by (simp add: js_times_def)
  show "\<forall>p \<in> set (run_progress
              (generateNextTurnWithDocument fuel
                 (\<lambda>k. generate_next_turn_endpoint (gateway k) (Some document_text))
                 topic roles (Some T) [] 0 0 language True)).
            snd p = Some (T * int (length roles))"
    unfolding generateNextTurnWithDocument_def
    using next_turn_loop_totals [where numTurns = "Some T" and roles = roles]
    by (simp add: js_times_def)
qed


definition echo_gateway :: "nat \<Rightarrow> gateway" where
  "echo_gateway k roster history speaker = Inr (speaker @ '' speaks'')"

theorem fresh_run_takes_R_times_T_steps_witness:
  "full_run [''Analyst'', ''Engineer''] 4 []
     (generateDiscussion 4 (\<lambda>k. generate_next_turn_endpoint (echo_gateway k) None)
        ''topic'' [''Analyst'', ''Engineer''] (Some 2) ''ja'')
   \<and> map (\<lambda>rq. (req_currentTurn rq, req_currentRoleIndex rq))
       (run_requests (generateDiscussion 4 (\<lambda>k. generate_next_turn_endpoint (echo_gateway k) None)
          ''topic'' [''Analyst'', ''Engineer''] (Some 2) ''ja''))
     = [(0, 0), (0, 1), (1, 0), (1, 1)]
   \<and> map role (run_transcript (generateDiscussion 4 (\<lambda>k. generate_next_turn_endpoint (echo_gateway k) None)
          ''topic'' [''Analyst'', ''Engineer''] (Some 2) ''ja''))
     = [''Analyst'', ''Engineer'', ''Analyst'', ''Engineer'']"
proof -
  have R: "2 \<le> length [''Analyst'', ''Engineer'']" by simp
  have T: "(1::int) \<le> 2" "(2::int) \<le> 10" by simp_all
  have gw: "\<exists>w. echo_gateway k roster history speaker = Inr w" for k roster history speaker
    by (simp add: echo_gateway_def)
  have fuel: "length [''Analyst'', ''Engineer''] * nat 2 \<le> 4" by simp
  have n: "length [''Analyst'', ''Engineer''] * nat 2 = 4" by simp
  have cursors: "map (\<lambda>rq. (req_currentTurn rq, req_currentRoleIndex rq))
       (run_requests (generateDiscussion 4 (\<lambda>k. generate_next_turn_endpoint (echo_gateway k) None)
          ''topic'' [''Analyst'', ''Engineer''] (Some 2) ''ja''))
     = [(0, 0), (0, 1), (1, 0), (1, 1)]"
    by code_simp
  have speakers: "map role (run_transcript (generateDiscussion 4 (\<lambda>k. generate_next_turn_endpoint (echo_gateway k) None)
          ''topic'' [''Analyst'', ''Engineer''] (Some 2) ''ja''))
     = [''Analyst'', ''Engineer'', ''Analyst'', ''Engineer'']"
    by code_simp
  from fresh_run_takes_R_times_T_steps
    [OF R T gw fuel, where document = None and topic = "''topic''" and language = "''ja''", THEN conjunct1]
  have "full_run [''Analyst'', ''Engineer''] 4 []
     (generateDiscussion 4 (\<lambda>k. generate_next_turn_endpoint (echo_gateway k) None)
        ''topic'' [''Analyst'', ''Engineer''] (Some 2) ''ja'')"
    unfolding n .
  with cursors speakers show ?thesis by blast
qed

section \<open>Responses without utterance in a continuation\<close>

text \<open>
  Modelled from the spec: the initialization reply of a continuation (sections 4.1 and
  6): "if cursor == {0,0} and the discussion already has prior utterances, the first
  call returns nextCursor = {0,0} advanced trivially and no utterance". The sequencer
  keeps no state between two calls (section 1 and P2), so the endpoint recognises the
  first call by the request alone. Its code is not among the sources.
\<close>

definition initializing_continue_discussion_endpoint ::
  "gateway \<Rightarrow> string option \<Rightarrow> continue_request \<Rightarrow> response" where
  "initializing_continue_discussion_endpoint gateway document rq =
     (if creq_current_turn rq = 0 \<and> creq_current_role_index rq = 0 \<and> creq_discussion_data rq \<noteq> []
      then Reply (cursor_reply 0 0)
      else continue_discussion_endpoint gateway document rq)"

text \<open>The endpoint with the gateway of the examples and an empty document store.\<close>

definition initializing_server :: "nat \<Rightarrow> continue_request \<Rightarrow> response" where
  "initializing_server k = initializing_continue_discussion_endpoint (echo_gateway k) None"

text \<open>A sequence of responses for examples: two without utterance, then two utterances.\<close>

definition two_cursor_replies :: "nat \<Rightarrow> continue_request \<Rightarrow> response" where
  "two_cursor_replies =
     playback [Reply (cursor_reply 1 1), Reply (cursor_reply 0 1), ok_reply ''B'' ''v'' False 1 0,
               ok_reply ''A'' ''w'' True 1 1]"

lemma step_loop_pending_length:
  assumes grow: "\<And>st. length (run_requests (step st)) = Suc (length (run_requests st))"
  shows "run_ending (step_loop fuel step st) = Pending
    \<Longrightarrow> length (run_requests (step_loop fuel step st)) = length (run_requests st) + fuel"
proof (induction fuel arbitrary: st)
  case 0
  show ?case by simp
next
  case (Suc fuel)
  show ?case
  proof (cases "run_ending (step st) = Pending")
    case True
    with Suc.prems have "run_ending (step_loop fuel step (step st)) = Pending" by (simp add: Let_def)
    from Suc.IH [OF this] True show ?thesis by (simp add: Let_def grow)
  next
    case False
    with Suc.prems show ?thesis by (simp add: Let_def)
  qed
qed

lemma message_less_continuing: "message_less r \<Longrightarrow> continuing_continuation r"
  by (auto simp: message_less_def continuing_continuation_def split: response.splits)

lemma message_less_utterance: "message_less r \<Longrightarrow> utterance_of r = []"
  by (auto simp: message_less_def utterance_of_def split: response.splits)

lemma message_less_cursor:
  "message_less r \<Longrightarrow> \<exists>d. r = Reply d \<and> reply_cursor r = (r_next_turn d, r_next_role_index d)"
  by (auto simp: message_less_def reply_cursor_def split: response.splits)

lemma returned_message_less:
  assumes "\<forall>i < k. message_less (rs ! i)" "k \<le> length rs"
  shows "returned (take k rs) = []"
proof -
  have "utterance_of r = []" if "r \<in> set (take k rs)" for r
  proof -
    from that obtain i where "i < length (take k rs)" "take k rs ! i = r"
      by (auto simp: in_set_conv_nth)
    with assms have "message_less r" by auto
    then show ?thesis by (rule message_less_utterance)
  qed
  then show ?thesis by (simp add: returned_def)
qed

lemma returned_take_Suc:
  "i < length rs \<Longrightarrow> returned (take (Suc i) rs) = returned (take i rs) @ utterance_of (rs ! i)"
  by (simp add: take_Suc_conv_app_nth returned_snoc)

lemma continuation_run_inv:
  assumes "\<not> (js_lt additionalTurns 1 \<or> js_gt additionalTurns 5)"
  shows "log_inv cserver
     (\<lambda>discussion c. continue_requestData topic
         (array_from_set (map role (collect_discussionData container))) additionalTurns language
         useDocument discussion (fst c) (snd c))
     continuing_continuation (collect_discussionData container) (0, 0)
     (handleContinueDiscussion fuel cserver additionalTurns useDocument container topic language)"
  using assms continuation_loop_inv
  by (simp add: handleContinueDiscussion_def Let_def)

lemma continuation_run_pending_length:
  assumes "run_ending (handleContinueDiscussion fuel cserver additionalTurns useDocument container topic language) = Pending"
  shows "length (run_requests (handleContinueDiscussion fuel cserver additionalTurns useDocument container topic language)) = fuel"
proof (cases "js_lt additionalTurns 1 \<or> js_gt additionalTurns 5")
  case True
  with assms show ?thesis by (simp add: handleContinueDiscussion_def refused_shared_def)
next
  case False
  let ?roles = "array_from_set (map role (collect_discussionData container))"
  let ?step = "continuation_step cserver topic ?roles additionalTurns language useDocument"
  let ?st0 = "start_shared (collect_discussionData container) (collect_discussionData container) True 0 0"
  have out: "handleContinueDiscussion fuel cserver additionalTurns useDocument container topic language
      = step_loop fuel ?step ?st0"
    using False by (simp add: handleContinueDiscussion_def Let_def fetchNextContinuationTurn_unfold)
  from assms have "run_ending (step_loop fuel ?step ?st0) = Pending" by (simp add: out)
  from step_loop_pending_length [of ?step fuel ?st0, OF continuation_step_requests this]
  show ?thesis by (simp add: out start_shared_def)
qed


lemma message_less_reply_round_trip:
  "let out = handleContinueDiscussion fuel cserver additionalTurns useDocument container topic language in
     (\<forall>i < length (run_responses out). message_less (run_responses out ! i) \<longrightarrow>
        (\<exists>d. run_responses out ! i = Reply d
           \<and> (Suc i < fuel \<longrightarrow> Suc i < length (run_requests out))
           \<and> (Suc i < length (run_requests out) \<longrightarrow>
                 creq_discussion_data (run_requests out ! Suc i) = creq_discussion_data (run_requests out ! i)
               \<and> creq_current_turn (run_requests out ! Suc i) = r_next_turn d
               \<and> creq_current_role_index (run_requests out ! Suc i) = r_next_role_index d)
           \<and> (Suc i = length (run_requests out) \<longrightarrow>
                 run_ending out = Pending
               \<and> run_transcript out = creq_discussion_data (run_requests out ! i)
               \<and> run_turn out = r_next_turn d \<and> run_roleIndex out = r_next_role_index d)))
   \<and> (\<forall>k \<le> length (run_responses out). (\<forall>i < k. message_less (run_responses out ! i)) \<longrightarrow>
        (\<forall>i \<le> k. i < length (run_requests out) \<longrightarrow>
            creq_discussion_data (run_requests out ! i) = collect_discussionData container))
   \<and> (run_requests out \<noteq> [] \<longrightarrow>
          creq_discussion_data (run_requests out ! 0) = collect_discussionData container
        \<and> creq_current_turn (run_requests out ! 0) = 0
        \<and> creq_current_role_index (run_requests out ! 0) = 0)"
proof (cases "js_lt additionalTurns 1 \<or> js_gt additionalTurns 5")
  case True
  then show ?thesis
    by (simp add: handleContinueDiscussion_def refused_shared_def)
next
  case False
  let ?out = "handleContinueDiscussion fuel cserver additionalTurns useDocument container topic language"
  let ?carried = "collect_discussionData container"
  let ?rs = "run_responses ?out"
  let ?mk = "\<lambda>discussion c. continue_requestData topic
         (array_from_set (map role (collect_discussionData container))) additionalTurns language
         useDocument discussion (fst c) (snd c)"
  note inv = continuation_run_inv [OF False, of cserver topic container language useDocument fuel]
  from inv have len: "length ?rs = length (run_requests ?out)"
    unfolding log_inv_def by blast
  from inv have bod: "i < length (run_requests ?out) \<Longrightarrow> run_requests ?out ! i =
      ?mk (?carried @ returned (take i ?rs)) (cursor_before (0, 0) ?rs i)" for i
    unfolding log_inv_def by blast
  from inv have pending: "run_ending ?out = Pending \<Longrightarrow>
      run_transcript ?out = ?carried @ returned ?rs
      \<and> (run_turn ?out, run_roleIndex ?out) = cursor_before (0, 0) ?rs (length ?rs)"
    unfolding log_inv_def by blast
  from inv have stopped: "run_ending ?out \<noteq> Pending \<Longrightarrow> ?rs \<noteq> [] \<and> \<not> continuing_continuation (last ?rs)"
    unfolding log_inv_def by blast
  have data: "creq_discussion_data (run_requests ?out ! i) = ?carried @ returned (take i ?rs)"
    if "i < length (run_requests ?out)" for i
    using bod [OF that] by (simp add: continue_requestData_def)
  have cur: "(creq_current_turn (run_requests ?out ! i), creq_current_role_index (run_requests ?out ! i))
      = cursor_before (0, 0) ?rs i"
    if "i < length (run_requests ?out)" for i
    using bod [OF that] by (simp add: continue_requestData_def)
  have each: "\<exists>d. ?rs ! i = Reply d
           \<and> (Suc i < fuel \<longrightarrow> Suc i < length (run_requests ?out))
           \<and> (Suc i < length (run_requests ?out) \<longrightarrow>
                 creq_discussion_data (run_requests ?out ! Suc i) = creq_discussion_data (run_requests ?out ! i)
               \<and> creq_current_turn (run_requests ?out ! Suc i) = r_next_turn d
               \<and> creq_current_role_index (run_requests ?out ! Suc i) = r_next_role_index d)
           \<and> (Suc i = length (run_requests ?out) \<longrightarrow>
                 run_ending ?out = Pending
               \<and> run_transcript ?out = creq_discussion_data (run_requests ?out ! i)
               \<and> run_turn ?out = r_next_turn d \<and> run_roleIndex ?out = r_next_role_index d)"
    if i: "i < length ?rs" and ml: "message_less (?rs ! i)" for i
  proof -
    from message_less_cursor [OF ml] obtain d where d: "?rs ! i = Reply d"
      and rc: "reply_cursor (?rs ! i) = (r_next_turn d, r_next_role_index d)" by blast
    from i have iq: "i < length (run_requests ?out)" by (simp add: len)
    have same: "returned (take (Suc i) ?rs) = returned (take i ?rs)"
      using returned_take_Suc [OF i] message_less_utterance [OF ml] by simp
    have after: "cursor_before (0, 0) ?rs (Suc i) = (r_next_turn d, r_next_role_index d)"
      using rc by (simp add: cursor_before_def)
    have last_pending: "run_ending ?out = Pending" if "Suc i = length (run_requests ?out)"
    proof (rule ccontr)
      assume "run_ending ?out \<noteq> Pending"
      from stopped [OF this] have "\<not> continuing_continuation (last ?rs)" by blast
      moreover have "last ?rs = ?rs ! i"
        using that i len by (metis diff_Suc_1 last_conv_nth list.size(3) not_less_zero)
      ultimately show False using message_less_continuing [OF ml] by simp
    qed
    have a: "Suc i < length (run_requests ?out)" if "Suc i < fuel"
    proof (rule ccontr)
      assume "\<not> Suc i < length (run_requests ?out)"
      with iq have l: "Suc i = length (run_requests ?out)" by linarith
      from continuation_run_pending_length [OF last_pending [OF l]] l that show False by simp
    qed
    have b: "creq_discussion_data (run_requests ?out ! Suc i) = creq_discussion_data (run_requests ?out ! i)
               \<and> creq_current_turn (run_requests ?out ! Suc i) = r_next_turn d
               \<and> creq_current_role_index (run_requests ?out ! Suc i) = r_next_role_index d"
      if "Suc i < length (run_requests ?out)"
      using data [OF that] data [OF iq] cur [OF that] by (simp add: same after)
    have c: "run_ending ?out = Pending
               \<and> run_transcript ?out = creq_discussion_data (run_requests ?out ! i)
               \<and> run_turn ?out = r_next_turn d \<and> run_roleIndex ?out = r_next_role_index d"
      if l: "Suc i = length (run_requests ?out)"
    proof -
      note p = last_pending [OF l]
      from l len have all: "take (Suc i) ?rs = ?rs" by simp
      from pending [OF p] have "run_transcript ?out = ?carried @ returned (take (Suc i) ?rs)"
        and "(run_turn ?out, run_roleIndex ?out) = cursor_before (0, 0) ?rs (Suc i)"
        using l len by (simp_all add: all)
      with p data [OF iq] show ?thesis by (simp add: same after)
    qed
    from d a b c show ?thesis by blast
  qed
  have leading: "creq_discussion_data (run_requests ?out ! i) = ?carried"
    if k: "k \<le> length ?rs" and ml: "\<forall>i < k. message_less (?rs ! i)"
      and i: "i \<le> k" "i < length (run_requests ?out)" for k i
  proof -
    from ml i(1) have "\<forall>j < i. message_less (?rs ! j)" by simp
    moreover from i(2) have "i \<le> length ?rs" by (simp add: len)
    ultimately have "returned (take i ?rs) = []" by (rule returned_message_less)
    with data [OF i(2)] show ?thesis by simp
  qed
  have first: "creq_discussion_data (run_requests ?out ! 0) = ?carried
        \<and> creq_current_turn (run_requests ?out ! 0) = 0
        \<and> creq_current_role_index (run_requests ?out ! 0) = 0"
    if "run_requests ?out \<noteq> []"
  proof -
    from that have 0: "0 < length (run_requests ?out)" by simp
    from data [OF 0] cur [OF 0] show ?thesis by (simp add: returned_def cursor_before_def)
  qed
  show ?thesis
    unfolding Let_def using each leading first by blast
qed


lemma message_less_iff:
  "message_less r \<longleftrightarrow> (\<exists>d. r = Reply d \<and> \<not> truthy (r_error d) \<and> r_message d = Undefined)"
  by (cases r) (simp_all add: message_less_def)

text \<open>
  Claim C6, amended. A continuation run starts at cursor \<open>(0, 0)\<close> with the transcript
  collected from the page. Whenever a response carries neither an error nor a message,
  the handler pushes nothing, copies the returned cursor into the request object and
  calls \<^verbatim>\<open>fetchNextContinuationTurn\<close> again at once: the next request is sent, it
  carries the same transcript as the one before, and its cursor is the returned one.
  This holds for the first response and for every later one, so as many utterance-free
  round trips precede the first utterance as the server gives such responses first: after
  \<open>k\<close> of them, requests \<open>0\<close> to \<open>k\<close> all carry the collected transcript and nothing
  more. There is exactly one when the second response carries an utterance.
\<close>

theorem every_message_less_reply_is_one_round_trip:
  "let out = handleContinueDiscussion fuel cserver additionalTurns useDocument container topic language in
     (\<forall>i d. i < length (run_responses out) \<and> run_responses out ! i = Reply d
            \<and> \<not> truthy (r_error d) \<and> r_message d = Undefined \<longrightarrow>
           (Suc i < fuel \<longrightarrow> Suc i < length (run_requests out))
         \<and> (Suc i < length (run_requests out) \<longrightarrow>
               creq_discussion_data (run_requests out ! Suc i) = creq_discussion_data (run_requests out ! i)
             \<and> creq_current_turn (run_requests out ! Suc i) = r_next_turn d
             \<and> creq_current_role_index (run_requests out ! Suc i) = r_next_role_index d)
         \<and> (Suc i = length (run_requests out) \<longrightarrow>
               run_ending out = Pending
             \<and> run_transcript out = creq_discussion_data (run_requests out ! i)
             \<and> run_turn out = r_next_turn d \<and> run_roleIndex out = r_next_role_index d))
   \<and> (\<forall>k \<le> length (run_responses out).
        (\<forall>i < k. \<exists>d. run_responses out ! i = Reply d \<and> \<not> truthy (r_error d) \<and> r_message d = Undefined) \<longrightarrow>
        (\<forall>i \<le> k. i < length (run_requests out) \<longrightarrow>
            creq_discussion_data (run_requests out ! i) = collect_discussionData container))
   \<and> (run_requests out \<noteq> [] \<longrightarrow>
          creq_discussion_data (run_requests out ! 0) = collect_discussionData container
        \<and> creq_current_turn (run_requests out ! 0) = 0
        \<and> creq_current_role_index (run_requests out ! 0) = 0)"
proof -
  let ?out = "handleContinueDiscussion fuel cserver additionalTurns useDocument container topic language"
  note general = message_less_reply_round_trip
    [of fuel cserver additionalTurns useDocument container topic language, unfolded Let_def]
  have each: "(Suc i < fuel \<longrightarrow> Suc i < length (run_requests ?out))
         \<and> (Suc i < length (run_requests ?out) \<longrightarrow>
               creq_discussion_data (run_requests ?out ! Suc i) = creq_discussion_data (run_requests ?out ! i)
             \<and> creq_current_turn (run_requests ?out ! Suc i) = r_next_turn d
             \<and> creq_current_role_index (run_requests ?out ! Suc i) = r_next_role_index d)
         \<and> (Suc i = length (run_requests ?out) \<longrightarrow>
               run_ending ?out = Pending
             \<and> run_transcript ?out = creq_discussion_data (run_requests ?out ! i)
             \<and> run_turn ?out = r_next_turn d \<and> run_roleIndex ?out = r_next_role_index d)"
    if i: "i < length (run_responses ?out)" and d: "run_responses ?out ! i = Reply d"
      and quiet: "\<not> truthy (r_error d)" "r_message d = Undefined" for i d
  proof -
    from d quiet have "message_less (run_responses ?out ! i)" by (simp add: message_less_def)
    with general [THEN conjunct1, rule_format, OF i] d show ?thesis by simp
  qed
  have leading: "creq_discussion_data (run_requests ?out ! i) = collect_discussionData container"
    if "k \<le> length (run_responses ?out)"
      and "\<forall>i < k. \<exists>d. run_responses ?out ! i = Reply d \<and> \<not> truthy (r_error d) \<and> r_message d = Undefined"
      and "i \<le> k" "i < length (run_requests ?out)" for k i
  proof -
    from that(2) have "\<forall>i < k. message_less (run_responses ?out ! i)"
      by (simp add: message_less_iff)
    with general [THEN conjunct2, THEN conjunct1, rule_format, OF that(1) _ that(3,4)]
    show ?thesis by blast
  qed
  from general have first: "run_requests ?out \<noteq> [] \<longrightarrow>
          creq_discussion_data (run_requests ?out ! 0) = collect_discussionData container
        \<and> creq_current_turn (run_requests ?out ! 0) = 0
        \<and> creq_current_role_index (run_requests ?out ! 0) = 0"
    by blast
  show ?thesis
    unfolding Let_def
  proof (intro conjI allI impI)
    fix i d
    assume a: "i < length (run_responses ?out) \<and> run_responses ?out ! i = Reply d
            \<and> \<not> truthy (r_error d) \<and> r_message d = Undefined"
    then have i: "i < length (run_responses ?out)" and d: "run_responses ?out ! i = Reply d"
      and quiet: "\<not> truthy (r_error d)" "r_message d = Undefined" by blast+
    note e = each [OF i d quiet]
    {
      assume "Suc i < fuel"
      with e show "Suc i < length (run_requests ?out)" by blast
    next
      assume "Suc i < length (run_requests ?out)"
      with e show "creq_discussion_data (run_requests ?out ! Suc i) = creq_discussion_data (run_requests ?out ! i)"
        and "creq_current_turn (run_requests ?out ! Suc i) = r_next_turn d"
        and "creq_current_role_index (run_requests ?out ! Suc i) = r_next_role_index d" by blast+
    next
      assume "Suc i = length (run_requests ?out)"
      with e show "run_ending ?out = Pending"
        and "run_transcript ?out = creq_discussion_data (run_requests ?out ! i)"
        and "run_turn ?out = r_next_turn d" and "run_roleIndex ?out = r_next_role_index d" by blast+
    }
  next
    fix k i
    assume "k \<le> length (run_responses ?out)"
      and "\<forall>i < k. \<exists>d. run_responses ?out ! i = Reply d \<and> \<not> truthy (r_error d) \<and> r_message d = Undefined"
      and "i \<le> k" "i < length (run_requests ?out)"
    then show "creq_discussion_data (run_requests ?out ! i) = collect_discussionData container"
      by (rule leading)
  next
    assume "run_requests ?out \<noteq> []"
    with first show "creq_discussion_data (run_requests ?out ! 0) = collect_discussionData container"
      and "creq_current_turn (run_requests ?out ! 0) = 0"
      and "creq_current_role_index (run_requests ?out ! 0) = 0" by blast+
  qed
qed

text \<open>
  Against the endpoint that gives the initialization reply by the request alone, the
  second request is the first one again (same transcript, cursor \<open>(0, 0)\<close>) and gets the
  same reply: seven requests of a run over two prior utterances bring seven responses
  without utterance, the transcript is unchanged, and the run is still waiting for its
  first utterance.
\<close>

theorem initialization_reply_repeats_counterexample:
  "run_responses (handleContinueDiscussion 7 initializing_server
       (Some 1) False [Bubble ''A'' ''x'', Bubble ''B'' ''y''] ''t'' ''ja'')
     = replicate 7 (Reply \<lparr>r_error = None, r_message = Undefined, r_is_complete = False,
                            r_next_turn = 0, r_next_role_index = 0\<rparr>)
   \<and> map (\<lambda>rq. (creq_current_turn rq, creq_current_role_index rq))
       (run_requests (handleContinueDiscussion 7 initializing_server
         (Some 1) False [Bubble ''A'' ''x'', Bubble ''B'' ''y''] ''t'' ''ja''))
     = [(0, 0), (0, 0), (0, 0), (0, 0), (0, 0), (0, 0), (0, 0)]
   \<and> run_transcript (handleContinueDiscussion 7 initializing_server
       (Some 1) False [Bubble ''A'' ''x'', Bubble ''B'' ''y''] ''t'' ''ja'')
     = [Message ''A'' ''x'', Message ''B'' ''y'']
   \<and> run_ending (handleContinueDiscussion 7 initializing_server
       (Some 1) False [Bubble ''A'' ''x'', Bubble ''B'' ''y''] ''t'' ''ja'') = Pending"
  by code_simp


theorem every_message_less_reply_is_one_round_trip_witness:
  "run_responses (handleContinueDiscussion 9 two_cursor_replies
       (Some 2) False [Bubble ''A'' ''x'', Bubble ''B'' ''y''] ''t'' ''ja'') ! 0
     = Reply \<lparr>r_error = None, r_message = Undefined, r_is_complete = False,
              r_next_turn = 1, r_next_role_index = 1\<rparr>
   \<and> creq_discussion_data (run_requests (handleContinueDiscussion 9 two_cursor_replies
       (Some 2) False [Bubble ''A'' ''x'', Bubble ''B'' ''y''] ''t'' ''ja'') ! 1)
     = [Message ''A'' ''x'', Message ''B'' ''y'']
   \<and> creq_current_turn (run_requests (handleContinueDiscussion 9 two_cursor_replies
       (Some 2) False [Bubble ''A'' ''x'', Bubble ''B'' ''y''] ''t'' ''ja'') ! 1) = 1
   \<and> creq_current_role_index (run_requests (handleContinueDiscussion 9 two_cursor_replies
       (Some 2) False [Bubble ''A'' ''x'', Bubble ''B'' ''y''] ''t'' ''ja'') ! 1) = 1
   \<and> map (\<lambda>rq. (length (creq_discussion_data rq), creq_current_turn rq, creq_current_role_index rq))
       (run_requests (handleContinueDiscussion 9 two_cursor_replies
         (Some 2) False [Bubble ''A'' ''x'', Bubble ''B'' ''y''] ''t'' ''ja''))
     = [(2, 0, 0), (2, 1, 1), (2, 0, 1), (3, 1, 0)]
   \<and> run_transcript (handleContinueDiscussion 9 two_cursor_replies
       (Some 2) False [Bubble ''A'' ''x'', Bubble ''B'' ''y''] ''t'' ''ja'')
     = [Message ''A'' ''x'', Message ''B'' ''y'', Message ''B'' ''v'', Message ''A'' ''w'']"
proof -
  let ?out = "handleContinueDiscussion 9 two_cursor_replies
       (Some 2) False [Bubble ''A'' ''x'', Bubble ''B'' ''y''] ''t'' ''ja''"
  let ?d = "\<lparr>r_error = None, r_message = Undefined, r_is_complete = False,
              r_next_turn = 1, r_next_role_index = 1\<rparr>"
  have n: "0 < length (run_responses ?out)" "Suc 0 < length (run_requests ?out)" by code_simp+
  have r0: "run_responses ?out ! 0 = Reply ?d" by code_simp
  have quiet: "\<not> truthy (r_error ?d)" "r_message ?d = Undefined" by (simp_all add: truthy_def)
  have q0: "creq_discussion_data (run_requests ?out ! 0) = [Message ''A'' ''x'', Message ''B'' ''y'']"
    by code_simp
  from every_message_less_reply_is_one_round_trip
    [of 9 two_cursor_replies "Some 2" False "[Bubble ''A'' ''x'', Bubble ''B'' ''y'']" "''t''" "''ja''",
     unfolded Let_def, THEN conjunct1, rule_format, of 0 ?d]
    n r0 quiet
  have "creq_discussion_data (run_requests ?out ! Suc 0) = creq_discussion_data (run_requests ?out ! 0)
        \<and> creq_current_turn (run_requests ?out ! Suc 0) = r_next_turn ?d
        \<and> creq_current_role_index (run_requests ?out ! Suc 0) = r_next_role_index ?d"
    by blast
  with q0 have second:
    "creq_discussion_data (run_requests ?out ! 1) = [Message ''A'' ''x'', Message ''B'' ''y'']
     \<and> creq_current_turn (run_requests ?out ! 1) = 1
     \<and> creq_current_role_index (run_requests ?out ! 1) = 1"
    by simp
  have requests: "map (\<lambda>rq. (length (creq_discussion_data rq), creq_current_turn rq, creq_current_role_index rq))
       (run_requests ?out) = [(2, 0, 0), (2, 1, 1), (2, 0, 1), (3, 1, 0)]"
    by code_simp
  have transcript: "run_transcript ?out
     = [Message ''A'' ''x'', Message ''B'' ''y'', Message ''B'' ''v'', Message ''A'' ''w'']"
    by code_simp
  from r0 second requests transcript show ?thesis by blast
qed

section \<open>Roles of a continuation run\<close>

text \<open>
  In the words of the specification the role list of a continuation is "the distinct
  role names of the transcript in order of first occurrence": the entries of the list of
  role names that do not occur at an earlier position, in their order.
\<close>

definition first_at :: "'a list \<Rightarrow> nat \<Rightarrow> 'a list" where
  "first_at xs i = (if xs ! i \<in> set (take i xs) then [] else [xs ! i])"

definition first_occurrences :: "'a list \<Rightarrow> 'a list" where
  "first_occurrences xs = concat (map (first_at xs) [0..<length xs])"

lemma first_occurrences_Nil [simp]: "first_occurrences [] = []"
  by (simp add: first_occurrences_def)

lemma first_occurrences_snoc:
  "first_occurrences (xs @ [x]) = first_occurrences xs @ (if x \<in> set xs then [] else [x])"
proof -
  have before: "map (first_at (xs @ [x])) [0..<length xs] = map (first_at xs) [0..<length xs]"
    by (rule map_cong) (simp_all add: first_at_def nth_append)
  have last: "first_at (xs @ [x]) (length xs) = (if x \<in> set xs then [] else [x])"
    by (simp add: first_at_def)
  have "first_occurrences (xs @ [x])
      = concat (map (first_at (xs @ [x])) [0..<length xs]) @ first_at (xs @ [x]) (length xs)"
    by (simp add: first_occurrences_def)
  then show ?thesis
    unfolding before last by (simp add: first_occurrences_def)
qed

lemma set_first_occurrences [simp]: "set (first_occurrences xs) = set xs"
  by (induction xs rule: rev_induct) (auto simp: first_occurrences_snoc)

lemma distinct_first_occurrences [simp]: "distinct (first_occurrences xs)"
  by (induction xs rule: rev_induct) (auto simp: first_occurrences_snoc)

lemma array_from_set_snoc: "array_from_set (xs @ [x]) = set_add (array_from_set xs) x"
  by (simp add: array_from_set_def)

lemma array_from_set_first_occurrences: "array_from_set xs = first_occurrences xs"
proof (induction xs rule: rev_induct)
  case Nil
  show ?case by (simp add: array_from_set_def)
next
  case (snoc x xs)
  then show ?case
    by (simp add: array_from_set_snoc first_occurrences_snoc set_add_def)
qed

lemma consultant_messages_role:
  "ConsultantMessage c \<in> set container \<Longrightarrow> Message consultant_role c \<in> set (consultant_messages container)"
  by (induction container rule: consultant_messages.induct) auto

lemma requests_of_self_contained:
  assumes "self_contained server mk carried c0 out" "rq \<in> set (run_requests out)"
  shows "\<exists>history cursor. rq = mk history cursor"
proof -
  from assms(2) obtain i where "i < length (run_requests out)" "run_requests out ! i = rq"
    by (auto simp: in_set_conv_nth)
  with assms(1) show ?thesis unfolding self_contained_def by metis
qed

text \<open>
  Claim C7. A continuation run never takes a role list from the form: every request it
  sends carries the role names of the carried-in transcript, each once, in the order in
  which they first occur. Every role name of the transcript is among them, also one that
  is not a roster role: a consultant analysis on the page puts the consultant role into
  the list.
\<close>

theorem continuation_roles_are_first_occurrences:
  "(\<forall>rq \<in> set (run_requests (handleContinueDiscussion fuel cserver additionalTurns useDocument container topic language)).
       creq_roles rq = first_occurrences (map role (collect_discussionData container)))
   \<and> distinct (first_occurrences (map role (collect_discussionData container)))
   \<and> set (first_occurrences (map role (collect_discussionData container)))
       = role ` set (collect_discussionData container)
   \<and> (\<forall>c. ConsultantMessage c \<in> set container \<longrightarrow>
         consultant_role \<in> set (first_occurrences (map role (collect_discussionData container))))"
proof (intro conjI ballI allI impI)
  fix rq
  assume "rq \<in> set (run_requests (handleContinueDiscussion fuel cserver additionalTurns useDocument container topic language))"
  from requests_of_self_contained [OF handleContinueDiscussion_self_contained this]
  show "creq_roles rq = first_occurrences (map role (collect_discussionData container))"
    by (auto simp: continue_requestData_def array_from_set_first_occurrences)
next
  show "distinct (first_occurrences (map role (collect_discussionData container)))" by simp
next
  show "set (first_occurrences (map role (collect_discussionData container)))
       = role ` set (collect_discussionData container)" by simp
next
  fix c
  assume "ConsultantMessage c \<in> set container"
  from consultant_messages_role [OF this]
  have "Message consultant_role c \<in> set (collect_discussionData container)"
    by (simp add: collect_discussionData_def)
  then have "role (Message consultant_role c) \<in> role ` set (collect_discussionData container)"
    by (rule imageI)
  then show "consultant_role \<in> set (first_occurrences (map role (collect_discussionData container)))"
    by simp
qed


theorem continuation_roles_are_first_occurrences_witness:
  "map creq_roles (run_requests (handleContinueDiscussion 1 (playback []) (Some 1) False
       [Bubble ''B'' ''1'', ConsultantMessage ''c'', Bubble ''A'' ''2'', Bubble ''B'' ''3''] ''t'' ''ja''))
     = [[consultant_role, ''B'', ''A'']]"
proof -
  let ?container = "[Bubble ''B'' ''1'', ConsultantMessage ''c'', Bubble ''A'' ''2'', Bubble ''B'' ''3'']"
  let ?out = "handleContinueDiscussion 1 (playback []) (Some 1) False ?container ''t'' ''ja''"
  have one: "length (run_requests ?out) = 1"
    by code_simp
  then obtain rq where rq: "run_requests ?out = [rq]"
    by (cases "run_requests ?out") auto
  have order: "first_occurrences (map role (collect_discussionData ?container)) = [consultant_role, ''B'', ''A'']"
    by code_simp
  from continuation_roles_are_first_occurrences [of 1 "playback []" "Some 1" False ?container "''t''" "''ja''"]
  have "\<forall>rq \<in> set (run_requests ?out). creq_roles rq = first_occurrences (map role (collect_discussionData ?container))"
    by blast
  with rq order show ?thesis by simp
qed

section \<open>Validation of the inputs of a run\<close>

text \<open>A run that is refused has sent nothing, has received nothing, has produced no
  utterance, and has shown an error.\<close>

definition refusal :: "('r, 'z) run_scheme \<Rightarrow> ui_error \<Rightarrow> bool" where
  "refusal out e \<longleftrightarrow>
     run_requests out = [] \<and> run_responses out = [] \<and> run_transcript out = [] \<and> run_ending out = Stopped e"

lemma refusal_refused [simp]: "refusal (refused e) e' \<longleftrightarrow> e = e'"
  by (auto simp: refusal_def refused_def)

lemma refusal_refused_shared [simp]: "refusal (refused_shared e) e' \<longleftrightarrow> e = e'"
  by (auto simp: refusal_def refused_shared_def)

text \<open>
  The validation of the handlers, for the integers that \<^verbatim>\<open>parseInt\<close> yields. A fresh
  run (plain or with document) whose form holds fewer than two non-blank roles or whose
  turn count is below 1 or above 10, and a continuation or guidance run whose additional
  turn count is below 1 or above 5, is refused: an error message is shown, no request is
  sent and no utterance is produced. The role list is an input of fresh runs only (a
  continuation derives it from the transcript, a guidance run sends none).
\<close>

theorem out_of_bounds_input_is_refused:
  "(length (entered_roles roleInputs) < 2 \<or> n < 1 \<or> 10 < n \<longrightarrow>
      (\<exists>e \<in> {TopicMissing, TooFewRoles, TurnsOutOfRange}.
          refusal (handleFormSubmit fuel server topicInput roleInputs (Some n) language) e)
    \<and> (\<exists>e \<in> {TopicMissing, TooFewRoles, TurnsOutOfRange}.
          refusal (handleGenerateWithDocument fuel server check1 check2 topicInput roleInputs (Some n) language) e)
    \<and> (\<exists>e \<in> {TopicMissing, TooFewRoles, TurnsOutOfRange}.
          refusal (handleGenerateWithDocument_early fuel server uploadedDocument topicInput roleInputs (Some n) language) e))
   \<and> (n < 1 \<or> 5 < n \<longrightarrow>
      refusal (handleContinueDiscussion fuel cserver (Some n) useDocument container topic language)
        AdditionalTurnsOutOfRange
    \<and> gr_requests (handleProvideGuidance gserver instructionInput (Some n) useDocument container topic language) = []
    \<and> gr_currentDiscussion (handleProvideGuidance gserver instructionInput (Some n) useDocument container topic language) = None
    \<and> gr_ending (handleProvideGuidance gserver instructionInput (Some n) useDocument container topic language)
        \<in> {Stopped InstructionMissing, Stopped AdditionalTurnsOutOfRange})"
  by (auto simp: handleFormSubmit_def handleGenerateWithDocument_def handleGenerateWithDocument_early_def
      handleContinueDiscussion_def handleProvideGuidance_def Let_def js_lt_def js_gt_def)

theorem out_of_bounds_input_is_refused_witness:
  "(\<exists>e \<in> {TopicMissing, TooFewRoles, TurnsOutOfRange}.
      refusal (handleFormSubmit 5 (playback []) ''topic'' [''A'', ''B''] (Some 11) ''ja'') e)
   \<and> (\<exists>e \<in> {TopicMissing, TooFewRoles, TurnsOutOfRange}.
      refusal (handleFormSubmit 5 (playback []) ''topic'' [''A'', '' ''] (Some 3) ''ja'') e)
   \<and> refusal (handleContinueDiscussion 5 (playback []) (Some 6) False [Bubble ''A'' ''x'', Bubble ''B'' ''y''] ''t'' ''ja'')
        AdditionalTurnsOutOfRange
   \<and> run_ending (handleFormSubmit 5 (playback []) ''topic'' [''A'', ''B''] (Some 11) ''ja'') = Stopped TurnsOutOfRange
   \<and> run_ending (handleFormSubmit 5 (playback []) ''topic'' [''A'', '' ''] (Some 3) ''ja'') = Stopped TooFewRoles"
proof -
  have turns: "length (entered_roles [''A'', ''B'']) < 2 \<or> (11::int) < 1 \<or> (10::int) < 11" by simp
  have one: "length (entered_roles [''A'', '' '']) < 2 \<or> (3::int) < 1 \<or> (10::int) < 3" by code_simp
  have more: "(6::int) < 1 \<or> (5::int) < 6" by simp
  note a = out_of_bounds_input_is_refused [THEN conjunct1, rule_format, OF turns, THEN conjunct1,
      of 5 "playback []" "''topic''" "''ja''"]
  note b = out_of_bounds_input_is_refused [THEN conjunct1, rule_format, OF one, THEN conjunct1,
      of 5 "playback []" "''topic''" "''ja''"]
  note c = out_of_bounds_input_is_refused [THEN conjunct2, rule_format, OF more, THEN conjunct1,
      of 5 "playback []" False "[Bubble ''A'' ''x'', Bubble ''B'' ''y'']" "''t''" "''ja''"]
  have d: "run_ending (handleFormSubmit 5 (playback []) ''topic'' [''A'', ''B''] (Some 11) ''ja'') = Stopped TurnsOutOfRange"
    by code_simp
  have e: "run_ending (handleFormSubmit 5 (playback []) ''topic'' [''A'', '' ''] (Some 3) ''ja'') = Stopped TooFewRoles"
    by code_simp
  from a b c d e show ?thesis by blast
qed

text \<open>
  White space outside ASCII is trimmed like a blank: a topic, a role or an instruction
  that consists of the ideographic space U+3000 counts as missing.
\<close>

lemma ideographic_space_is_blank:
  "trim [CHR 0xE3, CHR 0x80, CHR 0x80] = []
   \<and> run_ending (handleFormSubmit 1 (playback []) [CHR 0xE3, CHR 0x80, CHR 0x80] [''A'', ''B''] (Some 1) ''ja'')
     = Stopped TopicMissing
   \<and> run_ending (handleFormSubmit 1 (playback []) ''topic'' [''A'', [CHR 0xE3, CHR 0x80, CHR 0x80]] (Some 1) ''ja'')
     = Stopped TooFewRoles
   \<and> gr_ending (handleProvideGuidance (\<lambda>rq. GuidanceRejected ''timeout'') [CHR 0xE3, CHR 0x80, CHR 0x80]
        (Some 1) False [Bubble ''A'' ''x'', Bubble ''B'' ''y''] ''t'' ''ja'')
     = Stopped InstructionMissing"
  by code_simp

text \<open>
  Claim C8. A run whose turn count violates the bounds is to be refused before any
  request is sent. The handlers compare the result of \<^verbatim>\<open>parseInt\<close> with the bounds
  (\<^verbatim>\<open>numTurns < 1 || numTurns > 10\<close>), and both comparisons are false for \<^verbatim>\<open>NaN\<close>,
  which is what \<^verbatim>\<open>parseInt\<close> yields for an empty turn field: the run is not refused.
  With a topic, two roles and an empty turn field, \<^verbatim>\<open>handleFormSubmit\<close> sends a step
  request whose turn count is \<^verbatim>\<open>NaN\<close>; with an empty additional-turn field,
  \<^verbatim>\<open>handleContinueDiscussion\<close> and \<^verbatim>\<open>handleProvideGuidance\<close> send their requests too.
  Nor does \<^verbatim>\<open>handleContinueDiscussion\<close> look at the number of roles: over a transcript
  with a single speaker it sends a request whose role list has one element.
\<close>

theorem invalid_input_is_not_refused:
  "map req_numTurns (run_requests (handleFormSubmit 1 (playback []) ''topic'' [''A'', ''B''] None ''ja''))
     = [None]
   \<and> map req_numTurns (run_requests
        (handleGenerateWithDocument 1 (playback []) (CheckData True (Some ''text''))
           (CheckData True (Some ''text'')) ''topic'' [''A'', ''B''] None ''ja''))
     = [None]
   \<and> map creq_num_additional_turns (run_requests
        (handleContinueDiscussion 1 (playback []) None False [Bubble ''A'' ''x'', Bubble ''B'' ''y''] ''t'' ''ja''))
     = [None]
   \<and> map greq_num_additional_turns (gr_requests
        (handleProvideGuidance (\<lambda>rq. GuidanceRejected ''timeout'') ''focus'' None False
           [Bubble ''A'' ''x'', Bubble ''B'' ''y''] ''t'' ''ja''))
     = [None]
   \<and> map creq_roles (run_requests
        (handleContinueDiscussion 1 (playback []) (Some 1) False [Bubble ''A'' ''x''] ''t'' ''ja''))
     = [[''A'']]"
  by code_simp

section \<open>What every request of a fresh run carries\<close>

lemma next_turn_loop_use_document:
  assumes "rq \<in> set (run_requests (step_loop fuel (next_turn_step server useDocument topic roles numTurns language)
        (start discussion currentTurn currentRoleIndex)))"
  shows "req_use_document rq = useDocument \<and> req_roles rq = roles"
  using requests_of_self_contained [OF next_turn_loop_self_contained assms]
  by (auto simp: turn_requestData_def)

lemma refused_requests [simp]: "run_requests (refused e) = []"
  by (simp add: refused_def)

section \<open>The role form\<close>

text \<open>
  The roles container of the page holds groups, in document order. The page of the
  repository starts with two groups that have a field for a name and one for a
  description and no element of class \<^verbatim>\<open>role-input\<close>; every group that a script adds
  has exactly one \<^verbatim>\<open>role-input\<close> field. The handlers that start a run read the
  \<^verbatim>\<open>role-input\<close> fields only.
\<close>

datatype role_group = PageGroup | InputGroup string

definition initial_form :: "role_group list" where
  "initial_form = [PageGroup, PageGroup]"

text \<open>\<^verbatim>\<open>document.querySelectorAll('.role-input')\<close>, as the list of the values.\<close>

fun role_inputs :: "role_group list \<Rightarrow> string list" where
  "role_inputs [] = []"
| "role_inputs (PageGroup # gs) = role_inputs gs"
| "role_inputs (InputGroup v # gs) = v # role_inputs gs"

text \<open>Writing \<open>v\<close> into the \<open>k\<close>-th \<^verbatim>\<open>role-input\<close> field, by a script or by the user.\<close>

fun set_value :: "nat \<Rightarrow> string \<Rightarrow> role_group list \<Rightarrow> role_group list" where
  "set_value k v [] = []"
| "set_value k v (PageGroup # gs) = PageGroup # set_value k v gs"
| "set_value 0 v (InputGroup w # gs) = InputGroup v # gs"
| "set_value (Suc k) v (InputGroup w # gs) = InputGroup w # set_value k v gs"

text \<open>
  \<^verbatim>\<open>addRoleInput(roleText)\<close> of the latest version appends a group whose field holds the
  text, unless there are six \<^verbatim>\<open>role-input\<close> fields already; then it shows an error.
  The field is written as markup with \<^verbatim>\<open>escapeHtml(roleText)\<close> as its value, which the
  parser of the browser reads back as the text. When the function is called by a click
  on the button, \<open>roleText\<close> is the string form of the click event; \<^verbatim>\<open>importRoles\<close>
  passes a role text. The earlier version takes no argument and adds an empty field.
\<close>

definition addRoleInput :: "string \<Rightarrow> role_group list \<Rightarrow> role_group list \<times> ui_error option" where
  "addRoleInput roleText form =
     (if 6 \<le> length (role_inputs form) then (form, Some TooManyRoles)
      else (form @ [InputGroup roleText], None))"

text \<open>
  \<^verbatim>\<open>removeRoleInput\<close>, for a click on the remove button of group \<open>i\<close>:
  \<^verbatim>\<open>button.closest('.input-group').remove()\<close> removes a group that a script has added,
  and of a group of the page only the part with the description, which has no
  \<^verbatim>\<open>role-input\<close> field. The buttons are disabled while there are at most two
  \<^verbatim>\<open>role-input\<close> fields; here every click goes through.
\<close>

definition removeRoleInput :: "nat \<Rightarrow> role_group list \<Rightarrow> role_group list" where
  "removeRoleInput i form =
     (if i < length form
      then (case form ! i of PageGroup \<Rightarrow> form | InputGroup v \<Rightarrow> take i form @ drop (Suc i) form)
      else form)"

text \<open>
  \<^verbatim>\<open>loadExampleTopic\<close> empties the container and adds one group per role of the example
  that was clicked, with no test of their number. The role text is written into the
  markup as it is; the roles of an example are taken to be free of the characters that
  end an attribute value. The three examples of the page have four roles each.
\<close>

definition loadExampleTopic :: "string list \<Rightarrow> role_group list \<Rightarrow> role_group list" where
  "loadExampleTopic roles form = map InputGroup roles"

text \<open>
  \<^verbatim>\<open>importRoles\<close> (latest version only) keeps the preview entries that have a name and a
  description and shows an error when there is none. When the box is ticked it removes
  all groups but the first two and empties the \<^verbatim>\<open>role-input\<close> fields that remain. Then
  it writes one text per entry: into the \<^verbatim>\<open>role-input\<close> fields that were there when it
  looked (\<^verbatim>\<open>querySelectorAll\<close> returns a static list), and through \<^verbatim>\<open>addRoleInput\<close>
  after that, which shows its error when it refuses. The result is the form and the
  error shown last, if any. The topic field, which the function may also set, is not part
  of the form here.
\<close>

fun clear_value :: "role_group \<Rightarrow> role_group" where
  "clear_value PageGroup = PageGroup"
| "clear_value (InputGroup v) = InputGroup []"

definition import_role ::
  "nat \<Rightarrow> nat \<times> role_group list \<times> ui_error option \<Rightarrow> string \<Rightarrow> nat \<times> role_group list \<times> ui_error option" where
  "import_role n st roleText =
     (let currentIndex = fst st; form = fst (snd st); shown = snd (snd st) in
      if currentIndex < n then (Suc currentIndex, set_value currentIndex roleText form, shown)
      else
        let added = addRoleInput roleText form in
        (currentIndex, fst added, (case snd added of None \<Rightarrow> shown | Some e \<Rightarrow> Some e)))"

definition importRoles ::
  "(string \<times> string) list \<Rightarrow> bool \<Rightarrow> role_group list \<Rightarrow> role_group list \<times> ui_error option" where
  "importRoles preview clearExisting form =
     (let roles = filter (\<lambda>r. fst r \<noteq> [] \<and> snd r \<noteq> []) preview in
      if roles = [] then (form, Some NothingToImport)
      else
        let cleared = (if clearExisting then map clear_value (take 2 form) else form);
            texts = map (\<lambda>r. fst r @ '': '' @ snd r) roles
        in snd (foldl (import_role (length (role_inputs cleared))) (0, cleared, None) texts))"

text \<open>What can happen to the form between two runs.\<close>

datatype form_event =
    AddRole string
  | RemoveRole nat
  | EditRole nat string
  | ImportRoles "(string \<times> string) list" bool
  | LoadExample "string list"

fun form_after :: "form_event \<Rightarrow> role_group list \<Rightarrow> role_group list" where
  "form_after (AddRole roleText) form = fst (addRoleInput roleText form)"
| "form_after (RemoveRole i) form = removeRoleInput i form"
| "form_after (EditRole i v) form = set_value i v form"
| "form_after (ImportRoles preview clearExisting) form = fst (importRoles preview clearExisting form)"
| "form_after (LoadExample roles) form = loadExampleTopic roles form"

text \<open>An example with at most six roles, as those of the page are.\<close>

fun example_fits :: "form_event \<Rightarrow> bool" where
  "example_fits (LoadExample roles) = (length roles \<le> 6)"
| "example_fits ev = True"

lemma role_inputs_append: "role_inputs (xs @ ys) = role_inputs xs @ role_inputs ys"
  by (induction xs rule: role_inputs.induct) simp_all

lemma role_inputs_length: "length (role_inputs form) \<le> length form"
  by (induction form rule: role_inputs.induct) simp_all

lemma role_inputs_take: "length (role_inputs (take n form)) \<le> length (role_inputs form)"
proof (induction form arbitrary: n rule: role_inputs.induct)
  case 1
  show ?case by simp
next
  case (2 gs)
  then show ?case by (cases n) simp_all
next
  case (3 v gs)
  then show ?case by (cases n) simp_all
qed

lemma role_inputs_drop: "length (role_inputs (drop n form)) \<le> length (role_inputs form)"
proof (induction form arbitrary: n rule: role_inputs.induct)
  case 1
  show ?case by simp
next
  case (2 gs)
  then show ?case by (cases n) simp_all
next
  case (3 v gs)
  show ?case
  proof (cases n)
    case 0
    then show ?thesis by simp
  next
    case (Suc m)
    with 3 [of m] show ?thesis by (simp add: le_SucI)
  qed
qed

lemma role_inputs_clear: "length (role_inputs (map clear_value form)) = length (role_inputs form)"
  by (induction form rule: role_inputs.induct) simp_all

lemma role_inputs_set_value: "length (role_inputs (set_value k v form)) = length (role_inputs form)"
  by (induction k v form rule: set_value.induct) simp_all

lemma role_inputs_loaded: "role_inputs (map InputGroup roles) = roles"
  by (induction roles) simp_all

lemma addRoleInput_bound:
  "length (role_inputs form) \<le> 6 \<Longrightarrow> length (role_inputs (fst (addRoleInput roleText form))) \<le> 6"
  by (simp add: addRoleInput_def role_inputs_append)

lemma removeRoleInput_bound:
  "length (role_inputs (removeRoleInput i form)) \<le> length (role_inputs form)"
proof (cases "i < length form")
  case False
  then show ?thesis by (simp add: removeRoleInput_def)
next
  case True
  have split: "form = take i form @ form ! i # drop (Suc i) form"
    using True by (rule id_take_nth_drop)
  show ?thesis
  proof (cases "form ! i")
    case PageGroup
    with True show ?thesis by (simp add: removeRoleInput_def)
  next
    case (InputGroup v)
    have "length (role_inputs form)
        = length (role_inputs (take i form)) + Suc (length (role_inputs (drop (Suc i) form)))"
      by (subst split) (simp add: role_inputs_append InputGroup)
    with True InputGroup show ?thesis
      by (simp add: removeRoleInput_def role_inputs_append)
  qed
qed

lemma import_role_bound:
  "length (role_inputs (fst (snd st))) \<le> 6
   \<Longrightarrow> length (role_inputs (fst (snd (import_role n st roleText)))) \<le> 6"
  by (simp add: import_role_def Let_def addRoleInput_bound role_inputs_set_value)

lemma foldl_import_role_bound:
  "length (role_inputs (fst (snd st))) \<le> 6
   \<Longrightarrow> length (role_inputs (fst (snd (foldl (import_role n) st texts)))) \<le> 6"
  by (induction texts arbitrary: st) (simp_all add: import_role_bound)

lemma importRoles_bound:
  assumes "length (role_inputs form) \<le> 6"
  shows "length (role_inputs (fst (importRoles preview clearExisting form))) \<le> 6"
proof -
  have "length (role_inputs (map clear_value (take 2 form))) \<le> 6"
    using role_inputs_take [of 2 form] assms by (simp add: role_inputs_clear)
  then show ?thesis
    using assms by (simp add: importRoles_def Let_def foldl_import_role_bound)
qed

lemma form_after_bound:
  "length (role_inputs form) \<le> 6 \<Longrightarrow> example_fits ev \<Longrightarrow> length (role_inputs (form_after ev form)) \<le> 6"
proof (cases ev)
  case (RemoveRole i)
  assume "length (role_inputs form) \<le> 6"
  with removeRoleInput_bound [of i form] RemoveRole show ?thesis by simp
qed (simp_all add: addRoleInput_bound importRoles_bound role_inputs_set_value loadExampleTopic_def
      role_inputs_loaded)

lemma fold_form_after_bound:
  "length (role_inputs form) \<le> 6 \<Longrightarrow> \<forall>ev \<in> set events. example_fits ev
   \<Longrightarrow> length (role_inputs (fold form_after events form)) \<le> 6"
  by (induction events arbitrary: form) (simp_all add: form_after_bound)


lemma entered_roles_length: "length (entered_roles roleInputs) \<le> length roleInputs"
  unfolding entered_roles_def
  by (metis length_filter_le length_map)

lemma handleFormSubmit_roles:
  assumes "rq \<in> set (run_requests (handleFormSubmit fuel server topicInput roleInputs numTurns language))"
  shows "req_roles rq = entered_roles roleInputs \<and> 2 \<le> length (entered_roles roleInputs)"
  using assms
  by (auto simp: handleFormSubmit_def generateDiscussion_def generateNextTurn_def Let_def
      split: if_splits dest: next_turn_loop_use_document)

lemma handleGenerateWithDocument_roles:
  assumes "rq \<in> set (run_requests
      (handleGenerateWithDocument fuel server check1 check2 topicInput roleInputs numTurns language))"
  shows "req_roles rq = entered_roles roleInputs \<and> 2 \<le> length (entered_roles roleInputs)"
  using assms
  by (auto simp: handleGenerateWithDocument_def generateDiscussionWithDocument_def
      generateNextTurnWithDocument_def Let_def
      split: if_splits document_check.splits dest: next_turn_loop_use_document)

lemma handleGenerateWithDocument_early_roles:
  assumes "rq \<in> set (run_requests
      (handleGenerateWithDocument_early fuel server uploadedDocument topicInput roleInputs numTurns language))"
  shows "req_roles rq = entered_roles roleInputs \<and> 2 \<le> length (entered_roles roleInputs)"
  using assms
  by (auto simp: handleGenerateWithDocument_early_def generateNextTurnWithDocument_def Let_def
      split: if_splits dest: next_turn_loop_use_document)

text \<open>
  Claim C9, amended. A fresh run (plain or with the document, latest or earlier
  version) sends no request with fewer than 2 roles, and the roles it sends are the
  non-blank texts of the \<^verbatim>\<open>role-input\<close> fields; they need not be distinct.
  \<^verbatim>\<open>addRoleInput\<close>, also when \<^verbatim>\<open>importRoles\<close> calls it, does not grow a form of at most
  6 such fields beyond 6, and \<^verbatim>\<open>loadExampleTopic\<close> sets as many fields as the example
  has roles. So after any sequence of form events with examples of at most 6 roles, on
  a form that started with at most 6 fields, every fresh run has a roster of between 2
  and 6 roles.
\<close>

theorem fresh_roster_has_two_to_six_roles:
  assumes start: "length (role_inputs form) \<le> 6"
    and examples: "\<forall>ev \<in> set events. example_fits ev"
  shows "length (role_inputs (fst (addRoleInput roleText form))) \<le> 6
    \<and> length (role_inputs (fst (importRoles preview clearExisting form))) \<le> 6
    \<and> length (role_inputs (fold form_after events form)) \<le> 6
    \<and> (\<forall>rq \<in> set (run_requests
          (handleFormSubmit fuel server topicInput (role_inputs (fold form_after events form)) numTurns language)).
          2 \<le> length (req_roles rq) \<and> length (req_roles rq) \<le> 6)
    \<and> (\<forall>rq \<in> set (run_requests
          (handleGenerateWithDocument fuel server check1 check2 topicInput
             (role_inputs (fold form_after events form)) numTurns language)).
          2 \<le> length (req_roles rq) \<and> length (req_roles rq) \<le> 6)
    \<and> (\<forall>rq \<in> set (run_requests
          (handleGenerateWithDocument_early fuel server uploadedDocument topicInput
             (role_inputs (fold form_after events form)) numTurns language)).
          2 \<le> length (req_roles rq) \<and> length (req_roles rq) \<le> 6)
    \<and> (\<forall>rq \<in> set (run_requests (handleFormSubmit fuel server topicInput roleInputs numTurns language)).
          req_roles rq = entered_roles roleInputs \<and> 2 \<le> length (req_roles rq))
    \<and> (\<forall>rq \<in> set (run_requests
          (handleGenerateWithDocument fuel server check1 check2 topicInput roleInputs numTurns language)).
          req_roles rq = entered_roles roleInputs \<and> 2 \<le> length (req_roles rq))
    \<and> (\<forall>rq \<in> set (run_requests
          (handleGenerateWithDocument_early fuel server uploadedDocument topicInput roleInputs numTurns language)).
          req_roles rq = entered_roles roleInputs \<and> 2 \<le> length (req_roles rq))"
proof -
  have six: "length (entered_roles (role_inputs (fold form_after events form))) \<le> 6"
    using entered_roles_length [of "role_inputs (fold form_after events form)"]
      fold_form_after_bound [OF start examples] by linarith
  show ?thesis
    using addRoleInput_bound [OF start] importRoles_bound [OF start] fold_form_after_bound [OF start examples] six
    by (auto dest!: handleFormSubmit_roles handleGenerateWithDocument_roles
        handleGenerateWithDocument_early_roles)
qed

text \<open>An example with seven roles.\<close>

definition seven_roles :: "string list" where
  "seven_roles = [''A'', ''B'', ''C'', ''D'', ''E'', ''F'', ''G'']"

text \<open>
  Two role fields with the same text pass the validation, and the run starts with a
  roster of two entries that are not distinct. A continuation run takes its roster from
  the transcript and does not look at its size: one role over a transcript with a single
  speaker, seven over one with six speakers and a consultant analysis.
  \<^verbatim>\<open>loadExampleTopic\<close> with an example of seven roles leaves seven fields, and the run
  from that form has a roster of seven.
\<close>

theorem roster_outside_the_bounds_counterexample:
  "map req_roles (run_requests (handleFormSubmit 1 (playback []) ''topic'' [''A'', ''A''] (Some 1) ''ja''))
     = [[''A'', ''A'']]
   \<and> \<not> distinct [''A'', ''A'']
   \<and> map creq_roles (run_requests
        (handleContinueDiscussion 1 (playback []) (Some 1) False [Bubble ''A'' ''x''] ''t'' ''ja''))
     = [[''A'']]
   \<and> map (length \<circ> creq_roles) (run_requests
        (handleContinueDiscussion 1 (playback []) (Some 1) False
           [ConsultantMessage ''c'', Bubble ''A'' ''a'', Bubble ''B'' ''b'', Bubble ''C'' ''c'',
            Bubble ''D'' ''d'', Bubble ''E'' ''e'', Bubble ''F'' ''f''] ''t'' ''ja''))
     = [7]
   \<and> role_inputs (form_after (LoadExample seven_roles) initial_form) = seven_roles
   \<and> map (length \<circ> req_roles) (run_requests (handleFormSubmit 1 (playback []) ''topic''
        (role_inputs (form_after (LoadExample seven_roles) initial_form)) (Some 1) ''ja''))
     = [7]"
  by code_simp

theorem fresh_roster_has_two_to_six_roles_witness:
  "role_inputs (fold form_after
       [AddRole ''A'', LoadExample [''P'', ''Q'', ''R'', ''S''], AddRole ''T'', AddRole ''U'',
        AddRole ''V'', RemoveRole 0, ImportRoles [(''H'', ''h''), (''I'', ''i'')] False,
        EditRole 2 ''J'', AddRole ''K'']
       initial_form)
     = [''H: h'', ''I: i'', ''J'', ''T'', ''U'', ''K'']
   \<and> map req_roles (run_requests (handleFormSubmit 1 (playback []) ''topic''
        (role_inputs (fold form_after
           [AddRole ''A'', LoadExample [''P'', ''Q'', ''R'', ''S''], AddRole ''T'', AddRole ''U'',
            AddRole ''V'', RemoveRole 0, ImportRoles [(''H'', ''h''), (''I'', ''i'')] False,
            EditRole 2 ''J'', AddRole ''K'']
           initial_form)) (Some 1) ''ja''))
     = [[''H: h'', ''I: i'', ''J'', ''T'', ''U'', ''K'']]
   \<and> importRoles [(''A'', ''a''), (''B'', ''b''), (''C'', ''c''), (''D'', ''d''), (''E'', ''e''),
                     (''F'', ''f''), (''G'', ''g'')] True initial_form
     = ([PageGroup, PageGroup, InputGroup ''A: a'', InputGroup ''B: b'', InputGroup ''C: c'',
         InputGroup ''D: d'', InputGroup ''E: e'', InputGroup ''F: f''], Some TooManyRoles)
   \<and> length (role_inputs (fold form_after
       [AddRole ''A'', LoadExample [''P'', ''Q'', ''R'', ''S''], AddRole ''T'', AddRole ''U'',
        AddRole ''V'', RemoveRole 0, ImportRoles [(''H'', ''h''), (''I'', ''i'')] False,
        EditRole 2 ''J'', AddRole ''K'']
       initial_form)) \<le> 6"
proof -
  let ?events = "[AddRole ''A'', LoadExample [''P'', ''Q'', ''R'', ''S''], AddRole ''T'', AddRole ''U'',
        AddRole ''V'', RemoveRole 0, ImportRoles [(''H'', ''h''), (''I'', ''i'')] False,
        EditRole 2 ''J'', AddRole ''K'']"
  have start: "length (role_inputs initial_form) \<le> 6"
    by (simp add: initial_form_def)
  have examples: "\<forall>ev \<in> set ?events. example_fits ev"
    by simp
  have form: "role_inputs (fold form_after ?events initial_form) = [''H: h'', ''I: i'', ''J'', ''T'', ''U'', ''K'']"
    by code_simp
  have sent: "map req_roles (run_requests (handleFormSubmit 1 (playback []) ''topic''
        (role_inputs (fold form_after ?events initial_form)) (Some 1) ''ja''))
     = [[''H: h'', ''I: i'', ''J'', ''T'', ''U'', ''K'']]"
    by code_simp
  have shown: "importRoles [(''A'', ''a''), (''B'', ''b''), (''C'', ''c''), (''D'', ''d''), (''E'', ''e''),
                     (''F'', ''f''), (''G'', ''g'')] True initial_form
     = ([PageGroup, PageGroup, InputGroup ''A: a'', InputGroup ''B: b'', InputGroup ''C: c'',
         InputGroup ''D: d'', InputGroup ''E: e'', InputGroup ''F: f''], Some TooManyRoles)"
    by code_simp
  from fresh_roster_has_two_to_six_roles [OF start examples]
  have "length (role_inputs (fold form_after ?events initial_form)) \<le> 6" by blast
  with form sent shown show ?thesis by blast
qed

section \<open>Guidance runs\<close>

text \<open>
  Modelled from the spec: the role name of the synthetic directive utterance (section
  3 and 6 write it \<^verbatim>\<open>"system"\<close>). The code that creates the utterance is on the server
  and not among the sources.
\<close>

definition system_role :: string where
  "system_role = ''system''"

text \<open>
  Modelled from the spec: a guidance run (sections 4.1 and 6; its code is on the server
  and not among the sources) is "the same as continuation, with the prior utterances
  pre-extended by one synthetic system utterance before the first call": the loop that
  drives the steps of a continuation, started at cursor \<open>(0, 0)\<close> on the extended history.
\<close>

definition guidance_run ::
  "nat \<Rightarrow> (nat \<Rightarrow> continue_request \<Rightarrow> response) \<Rightarrow> string \<Rightarrow> string list \<Rightarrow> jsnum \<Rightarrow> string \<Rightarrow> bool
     \<Rightarrow> message list \<Rightarrow> string \<Rightarrow> continue_request shared_run" where
  "guidance_run fuel server topic roles additionalTurns language useDocument priorUtterances instruction =
     (let extended = priorUtterances @ [Message system_role instruction] in
      fetchNextContinuationTurn fuel server
        (continue_requestData topic roles additionalTurns language useDocument extended 0 0)
        extended True)"

text \<open>
  Modelled from the spec: an endpoint surfaces an error as a structured, non-empty error
  text (section 6).
\<close>

definition error_text :: "ui_error \<Rightarrow> string" where
  "error_text e =
     (case e of
        ServerError (Some t) \<Rightarrow> ''error: '' @ t
      | RequestError t \<Rightarrow> ''error: '' @ t
      | _ \<Rightarrow> ''error'')"

text \<open>
  Modelled from the spec: the endpoint behind \<^verbatim>\<open>POST /provide-guidance\<close>, whose code is
  not among the sources. The request carries no role list, so the roles are re-derived
  from the distinct roles of the transcript (section 3); the run is allowed one step more
  than the five turns a guidance run can have, and its transcript is the answer.
\<close>

definition provide_guidance_endpoint ::
  "(nat \<Rightarrow> gateway) \<Rightarrow> string option \<Rightarrow> guidance_request \<Rightarrow> guidance_response" where
  "provide_guidance_endpoint gateway document rq =
     (let roles = array_from_set (map role (greq_discussion_data rq));
          out = guidance_run (Suc (5 * length roles))
                  (\<lambda>k. continue_discussion_endpoint (gateway k) document)
                  (greq_topic rq) roles (greq_num_additional_turns rq) (greq_language rq)
                  (greq_use_document rq) (greq_discussion_data rq) (greq_instruction rq)
      in case run_ending out of
           Complete \<Rightarrow> GuidanceData None (run_transcript out)
         | Stopped e \<Rightarrow> GuidanceData (Some (error_text e)) []
         | Pending \<Rightarrow> GuidanceData (Some ''error: incomplete'') [])"

lemma continuation_advances:
  assumes R: "2 \<le> length roles" and T: "1 \<le> T" "T \<le> 5"
    and doc: "\<not> (useDocument \<and> document = None)"
    and gw: "\<And>k roster history speaker. \<exists>w. gateway k roster history speaker = Inr w"
  shows "advances (length roles * nat T) roles (\<lambda>st. run_body st = run_transcript st \<and> run_shared st)
           (continuation_step (\<lambda>k. continue_discussion_endpoint (gateway k) document)
              topic roles (Some T) language useDocument)"
  unfolding advances_def
proof (intro allI impI)
  fix st :: "continue_request shared_run"
  let ?k = "length (run_requests st)"
  let ?N = "length roles * nat T"
  let ?P = "\<lambda>st :: continue_request shared_run. run_body st = run_transcript st \<and> run_shared st"
  let ?server = "\<lambda>k. continue_discussion_endpoint (gateway k) document"
  let ?step = "continuation_step ?server topic roles (Some T) language useDocument"
  let ?d = "\<lambda>w. \<lparr>r_error = None, r_message = Message (roles ! (?k mod length roles)) w,
                  r_is_complete = (?N \<le> Suc ?k),
                  r_next_turn = int (Suc ?k div length roles),
                  r_next_role_index = int (Suc ?k mod length roles)\<rparr>"
  assume a: "?P st \<and> run_ending st = Pending \<and> ?k < ?N
          \<and> run_turn st = int (?k div length roles)
          \<and> run_roleIndex st = int (?k mod length roles)"
  then have pend: "run_ending st = Pending" and t: "run_turn st = int (?k div length roles)"
    and i: "run_roleIndex st = int (?k mod length roles)"
    and body: "run_body st = run_transcript st" and sh: "run_shared st" by blast+
  from gw obtain w where w: "gateway ?k roles (run_transcript st) (roles ! (?k mod length roles)) = Inr w"
    by blast
  have reply: "?server ?k
        (continue_requestData topic roles (Some T) language useDocument (run_body st)
           (run_turn st) (run_roleIndex st))
      = Reply (?d w)"
    unfolding continue_discussion_endpoint_def continue_requestData_def t i body
    using produceNextUtterance_at
      [of roles T 5 useDocument document "gateway ?k" "run_transcript st" ?k w,
       OF R T doc w]
    by simp
  have ok: "\<not> truthy (r_error (?d w))" "r_message (?d w) \<noteq> Undefined"
    by (simp_all add: truthy_def)
  note s = continuation_step_reply [of ?server st topic roles "Some T" language useDocument "?d w", OF reply ok]
  have shared: "\<not> ?N \<le> Suc ?k \<Longrightarrow> ?P (?step st)"
    using s(6) by simp
  have "length (run_requests (?step st)) = Suc ?k
          \<and> map reports_complete (run_responses (?step st))
              = map reports_complete (run_responses st) @ [?N \<le> Suc ?k]
          \<and> map fst (run_progress (?step st)) = map fst (run_progress st) @ [int ?k + 1]
          \<and> run_transcript (?step st) = run_transcript st @ [Message (roles ! (?k mod length roles)) w]
          \<and> (if ?N \<le> Suc ?k then run_ending (?step st) = Complete
              else run_ending (?step st) = Pending \<and> ?P (?step st)
                 \<and> run_turn (?step st) = int (Suc ?k div length roles)
                 \<and> run_roleIndex (?step st) = int (Suc ?k mod length roles))"
    using s(1-5) s(6) pend shared by (simp add: reports_complete_def t i position)
  then show "\<exists>text. length (run_requests (?step st)) = Suc ?k
          \<and> map reports_complete (run_responses (?step st))
              = map reports_complete (run_responses st) @ [?N \<le> Suc ?k]
          \<and> map fst (run_progress (?step st)) = map fst (run_progress st) @ [int ?k + 1]
          \<and> run_transcript (?step st) = run_transcript st @ [Message (roles ! (?k mod length roles)) text]
          \<and> (if ?N \<le> Suc ?k then run_ending (?step st) = Complete
              else run_ending (?step st) = Pending \<and> ?P (?step st)
                 \<and> run_turn (?step st) = int (Suc ?k div length roles)
                 \<and> run_roleIndex (?step st) = int (Suc ?k mod length roles))"
    by blast
qed

lemma guidance_run_full:
  assumes R: "2 \<le> length roles" and T: "1 \<le> T" "T \<le> 5"
    and doc: "\<not> (useDocument \<and> document = None)"
    and gw: "\<And>k roster history speaker. \<exists>w. gateway k roster history speaker = Inr w"
    and fuel: "length roles * nat T \<le> fuel"
  shows "full_run roles (length roles * nat T) (priorUtterances @ [Message system_role instruction])
           (guidance_run fuel (\<lambda>k. continue_discussion_endpoint (gateway k) document)
              topic roles (Some T) language useDocument priorUtterances instruction)"
  unfolding guidance_run_def Let_def fetchNextContinuationTurn_unfold
  using advances_full_run [OF continuation_advances [OF R T doc gw] steps_positive [OF R T(1)] _ _ _ _ _ _ _ fuel,
        where st = "start_shared (priorUtterances @ [Message system_role instruction])
                      (priorUtterances @ [Message system_role instruction]) True 0 0"]
  by (simp add: start_shared_def)


lemma cycling_roles:
  assumes "cycling roles k new" "roles \<noteq> []" "m \<in> set new"
  shows "\<exists>w. m = Message (role m) w \<and> role m \<in> set roles"
proof -
  from assms(3) obtain j where j: "j < length new" "new ! j = m" by (auto simp: in_set_conv_nth)
  with assms(1) obtain w where w: "m = Message (roles ! ((k + j) mod length roles)) w"
    unfolding cycling_def by metis
  have "(k + j) mod length roles < length roles" using assms(2) by simp
  then have "roles ! ((k + j) mod length roles) \<in> set roles" by (rule nth_mem)
  with w show ?thesis by auto
qed

lemma guidance_run_requests:
  assumes "rq \<in> set (run_requests (guidance_run fuel server topic roles additionalTurns language useDocument
      priorUtterances instruction))"
  shows "take (Suc (length priorUtterances)) (creq_discussion_data rq)
      = priorUtterances @ [Message system_role instruction]"
proof -
  let ?extended = "priorUtterances @ [Message system_role instruction]"
  let ?out = "guidance_run fuel server topic roles additionalTurns language useDocument priorUtterances instruction"
  have "self_contained server
     (\<lambda>discussion c. continue_requestData topic roles additionalTurns language useDocument discussion (fst c) (snd c))
     ?extended (0, 0) ?out"
    unfolding guidance_run_def Let_def
    by (rule log_inv_self_contained [OF continuation_loop_inv continuing_continuation_reply])
  from requests_of_self_contained [OF this assms]
  obtain i where "i < length (run_requests ?out)" using assms by (auto simp: in_set_conv_nth)
  from assms obtain i where i: "i < length (run_requests ?out)" "run_requests ?out ! i = rq"
    by (auto simp: in_set_conv_nth)
  from \<open>self_contained server _ ?extended (0, 0) ?out\<close> i
  have "creq_discussion_data rq = ?extended @ returned (take i (run_responses ?out))"
    unfolding self_contained_def by (auto simp: continue_requestData_def)
  then show ?thesis by simp
qed

text \<open>
  Claim C5, amended. In a guidance run the handler of the page sends the history it
  has collected unchanged, with the instruction text in a field of its own, in a single
  request, and takes the transcript of the answer as the current discussion. The history
  is extended by the one synthetic system utterance behind the endpoint, before the first
  step: every step request of the guidance run starts with the prior history followed by
  that utterance. The completed transcript is the prior history, the system utterance
  with the instruction text at the position where it was injected, and after it
  \<open>R * additionalTurns\<close> utterances spoken by the \<open>R\<close> roles of the prior history in
  turn; when no prior utterance has the system role, the transcript has exactly one
  system-role entry.
\<close>

theorem guidance_injects_one_system_utterance:
  assumes instr: "trim instructionInput \<noteq> []"
    and T: "1 \<le> T" "T \<le> 5"
    and R: "2 \<le> length (first_occurrences (map role (collect_discussionData container)))"
    and doc: "\<not> (useDocument \<and> document = None)"
    and gw: "\<And>k roster history speaker. \<exists>w. gateway k roster history speaker = Inr w"
  shows "gr_requests (handleProvideGuidance (provide_guidance_endpoint gateway document)
            instructionInput (Some T) useDocument container topic language)
        = [\<lparr>greq_discussion_data = collect_discussionData container, greq_topic = topic,
            greq_instruction = trim instructionInput, greq_num_additional_turns = Some T,
            greq_use_document = useDocument, greq_language = language\<rparr>]
    \<and> gr_ending (handleProvideGuidance (provide_guidance_endpoint gateway document)
            instructionInput (Some T) useDocument container topic language) = Complete
    \<and> (\<exists>new. gr_currentDiscussion (handleProvideGuidance (provide_guidance_endpoint gateway document)
            instructionInput (Some T) useDocument container topic language)
          = Some (collect_discussionData container @ [Message system_role (trim instructionInput)] @ new)
        \<and> length new = length (first_occurrences (map role (collect_discussionData container))) * nat T
        \<and> cycling (first_occurrences (map role (collect_discussionData container))) 0 new
        \<and> (system_role \<notin> role ` set (collect_discussionData container) \<longrightarrow>
             filter (\<lambda>m. role m = system_role)
               (collect_discussionData container @ [Message system_role (trim instructionInput)] @ new)
             = [Message system_role (trim instructionInput)]))
    \<and> (\<forall>rq \<in> set (run_requests (guidance_run fuel server topic roles additionalTurns language useDocument
            (collect_discussionData container) (trim instructionInput))).
          take (Suc (length (collect_discussionData container))) (creq_discussion_data rq)
          = collect_discussionData container @ [Message system_role (trim instructionInput)])"
proof -
  let ?prior = "collect_discussionData container"
  let ?roles = "first_occurrences (map role ?prior)"
  let ?instruction = "trim instructionInput"
  let ?rq = "\<lparr>greq_discussion_data = ?prior, greq_topic = topic,
            greq_instruction = ?instruction, greq_num_additional_turns = Some T,
            greq_use_document = useDocument, greq_language = language\<rparr>"
  let ?run = "guidance_run (Suc (5 * length ?roles)) (\<lambda>k. continue_discussion_endpoint (gateway k) document)
                topic ?roles (Some T) language useDocument ?prior ?instruction"
  let ?out = "handleProvideGuidance (provide_guidance_endpoint gateway document)
            instructionInput (Some T) useDocument container topic language"
  have "nat T \<le> 5" using T by linarith
  then have "length ?roles * nat T \<le> length ?roles * 5" by (rule mult_le_mono2)
  also have "\<dots> = 5 * length ?roles" by (rule mult.commute)
  also have "\<dots> \<le> Suc (5 * length ?roles)" by (rule le_SucI) (rule order_refl)
  finally have fuel: "length ?roles * nat T \<le> Suc (5 * length ?roles)" .
  from guidance_run_full [OF R T doc gw fuel]
  have full: "full_run ?roles (length ?roles * nat T) (?prior @ [Message system_role ?instruction]) ?run" .
  then obtain new where
      tr: "run_transcript ?run = (?prior @ [Message system_role ?instruction]) @ new"
    and len: "length new = length ?roles * nat T" and cy: "cycling ?roles 0 new"
    and en: "run_ending ?run = Complete"
    unfolding full_run_def by blast
  have answer: "provide_guidance_endpoint gateway document ?rq
      = GuidanceData None (?prior @ [Message system_role ?instruction] @ new)"
    using en tr by (simp add: provide_guidance_endpoint_def Let_def array_from_set_first_occurrences)
  have turns: "\<not> (js_lt (Some T) 1 \<or> js_gt (Some T) 5)" using T by (simp add: js_lt_def js_gt_def)
  have out: "?out = \<lparr>gr_requests = [?rq],
      gr_currentDiscussion = Some (?prior @ [Message system_role ?instruction] @ new),
      gr_ending = Complete\<rparr>"
    using instr turns answer by (simp add: handleProvideGuidance_def Let_def truthy_def)
  have once: "filter (\<lambda>m. role m = system_role) (?prior @ [Message system_role ?instruction] @ new)
             = [Message system_role ?instruction]"
    if none: "system_role \<notin> role ` set ?prior"
  proof -
    from R have ne: "?roles \<noteq> []" by auto
    have "role m \<noteq> system_role" if "m \<in> set new" for m
      using cycling_roles [OF cy ne that] none by auto
    then have "filter (\<lambda>m. role m = system_role) new = []"
      by (simp add: filter_empty_conv)
    moreover have "role m \<noteq> system_role" if "m \<in> set ?prior" for m
      using none that by (metis imageI)
    then have "filter (\<lambda>m. role m = system_role) ?prior = []"
      by (simp add: filter_empty_conv)
    ultimately show ?thesis by simp
  qed
  show ?thesis
    unfolding out using len cy once guidance_run_requests by auto
qed

text \<open>
  The request that \<^verbatim>\<open>handleProvideGuidance\<close> sends for two bubbles and the
  instruction "focus": the history has the two collected utterances and no third, the
  instruction travels beside it. And when one of the participants of the discussion is
  called "system", the completed transcript has three entries with that role: the
  participant's earlier utterance, the injected one, and the participant's new one.
\<close>

theorem guidance_request_is_not_extended_counterexample:
  "map greq_discussion_data (gr_requests (handleProvideGuidance (provide_guidance_endpoint echo_gateway None)
       ''focus'' (Some 1) False [Bubble ''A'' ''x'', Bubble ''B'' ''y''] ''t'' ''ja''))
     = [[Message ''A'' ''x'', Message ''B'' ''y'']]
   \<and> map greq_instruction (gr_requests (handleProvideGuidance (provide_guidance_endpoint echo_gateway None)
       ''focus'' (Some 1) False [Bubble ''A'' ''x'', Bubble ''B'' ''y''] ''t'' ''ja''))
     = [''focus'']
   \<and> gr_currentDiscussion (handleProvideGuidance (provide_guidance_endpoint echo_gateway None)
       ''focus'' (Some 1) False [Bubble ''system'' ''x'', Bubble ''B'' ''y''] ''t'' ''ja'')
     = Some [Message ''system'' ''x'', Message ''B'' ''y'', Message system_role ''focus'',
             Message ''system'' ''system speaks'', Message ''B'' ''B speaks'']
   \<and> system_role = ''system''"
  by code_simp

theorem guidance_injects_one_system_utterance_witness:
  "gr_ending (handleProvideGuidance (provide_guidance_endpoint echo_gateway None)
       '' focus '' (Some 1) False [Bubble ''A'' ''x'', Bubble ''B'' ''y''] ''t'' ''ja'') = Complete
   \<and> map greq_instruction (gr_requests (handleProvideGuidance (provide_guidance_endpoint echo_gateway None)
       '' focus '' (Some 1) False [Bubble ''A'' ''x'', Bubble ''B'' ''y''] ''t'' ''ja'')) = [''focus'']
   \<and> gr_currentDiscussion (handleProvideGuidance (provide_guidance_endpoint echo_gateway None)
       '' focus '' (Some 1) False [Bubble ''A'' ''x'', Bubble ''B'' ''y''] ''t'' ''ja'')
     = Some [Message ''A'' ''x'', Message ''B'' ''y'', Message system_role ''focus'',
             Message ''A'' ''A speaks'', Message ''B'' ''B speaks'']"
proof -
  let ?container = "[Bubble ''A'' ''x'', Bubble ''B'' ''y'']"
  let ?out = "handleProvideGuidance (provide_guidance_endpoint echo_gateway None)
       '' focus '' (Some 1) False ?container ''t'' ''ja''"
  have instr: "trim '' focus '' \<noteq> []" by code_simp
  have T: "(1::int) \<le> 1" "(1::int) \<le> 5" by simp_all
  have R: "2 \<le> length (first_occurrences (map role (collect_discussionData ?container)))"
    by code_simp
  have doc: "\<not> (False \<and> (None :: string option) = None)" by simp
  have gw: "\<exists>w. echo_gateway k roster history speaker = Inr w" for k roster history speaker
    by (simp add: echo_gateway_def)
  have focus: "trim '' focus '' = ''focus''" by code_simp
  note t = guidance_injects_one_system_utterance
    [of "'' focus ''" 1 ?container False None echo_gateway "''t''" "''ja''", OF instr T R doc gw]
  from t have e: "gr_ending ?out = Complete" by blast
  from t have q: "map greq_instruction (gr_requests ?out) = [''focus'']"
    unfolding focus by simp
  have d: "gr_currentDiscussion ?out
     = Some [Message ''A'' ''x'', Message ''B'' ''y'', Message system_role ''focus'',
             Message ''A'' ''A speaks'', Message ''B'' ''B speaks'']"
    by code_simp
  from e q d show ?thesis by blast
qed


section \<open>Grounded generation needs a document\<close>

















end
